theory Spec2Isabelle
  imports Complex_Main "HOL-Library.Char_ord" "HOL-Library.List_Lexorder"
begin

section \<open>JavaScript numbers and errors\<close>

text \<open>
  The server (server/index.mjs) computes with IEEE doubles. A finite double is the real
  number it denotes, \<open>Fin x\<close>, and the three non-finite values are kept, since the code
  tests for them (\<open>Number.isFinite\<close> holds of the values \<open>Fin x\<close> only) and
  comparisons with \<open>NaN\<close> are false. The arithmetic on the data values (the merge of
  point observations, the delta of two values) is that of IEEE binary64: the exact result
  rounded to the nearest double, ties to even, with overflow to infinity (\<open>fl\<close> below).
  The geometry of the grid (the steps, the bounds of the cells and the binning of a point)
  is idealised over the reals: there the rounding of each operation is not modelled. The
  sign of zero is not modelled.
\<close>

datatype jsnum = Fin real | PInf | NInf | NaN

datatype error = TypeError | RangeError

text \<open>\<open>a > b\<close> on numbers: false as soon as one side is \<open>NaN\<close>.\<close>

fun js_gt :: "jsnum \<Rightarrow> jsnum \<Rightarrow> bool" where
  "js_gt NaN _ = False"
| "js_gt _ NaN = False"
| "js_gt (Fin a) (Fin b) = (a > b)"
| "js_gt PInf PInf = False"
| "js_gt PInf _ = True"
| "js_gt _ PInf = False"
| "js_gt NInf _ = False"
| "js_gt (Fin a) NInf = True"

text \<open>
  \<open>a / b\<close> for the binning of a point, over the reals (a zero divisor is taken
  positive).
\<close>

definition js_div :: "real \<Rightarrow> real \<Rightarrow> jsnum" where
  "js_div a b =
     (if b \<noteq> 0 then Fin (a / b)
      else if a = 0 then NaN else if a > 0 then PInf else NInf)"

fun js_floor :: "jsnum \<Rightarrow> jsnum" where
  "js_floor (Fin x) = Fin (of_int \<lfloor>x\<rfloor>)"
| "js_floor n = n"

text \<open>\<open>Math.min\<close> and \<open>Math.max\<close>: \<open>NaN\<close> if an argument is \<open>NaN\<close>.\<close>

fun js_min :: "jsnum \<Rightarrow> jsnum \<Rightarrow> jsnum" where
  "js_min NaN _ = NaN"
| "js_min _ NaN = NaN"
| "js_min NInf _ = NInf"
| "js_min _ NInf = NInf"
| "js_min PInf b = b"
| "js_min a PInf = a"
| "js_min (Fin a) (Fin b) = Fin (min a b)"

fun js_max :: "jsnum \<Rightarrow> jsnum \<Rightarrow> jsnum" where
  "js_max NaN _ = NaN"
| "js_max _ NaN = NaN"
| "js_max PInf _ = PInf"
| "js_max _ PInf = PInf"
| "js_max NInf b = b"
| "js_max a NInf = a"
| "js_max (Fin a) (Fin b) = Fin (max a b)"

subsection \<open>Binary64 arithmetic\<close>

text \<open>The nearest integer, ties to the even one.\<close>

definition round_half_even :: "real \<Rightarrow> int" where
  "round_half_even q =
     (let f = \<lfloor>q\<rfloor>; r = q - of_int f
      in if r < 1 / 2 then f else if r > 1 / 2 then f + 1 else if even f then f else f + 1)"

text \<open>
  \<open>fl x\<close> is the double nearest to the real \<open>x\<close>: with \<open>e\<close> the binary exponent of
  \<open>x\<close>, at least that of the subnormal numbers, the doubles near \<open>x\<close> are the multiples of
  \<open>2 powi (e - 52)\<close>, and a result of magnitude \<open>2 ^ 1024\<close> is an infinity.
\<close>

definition fl :: "real \<Rightarrow> jsnum" where
  "fl x =
     (if x = 0 then Fin 0
      else
        let e = max \<lfloor>log 2 \<bar>x\<bar>\<rfloor> (- 1022);
            u = 2 powi (e - 52);
            y = of_int (round_half_even (\<bar>x\<bar> / u)) * u
        in if y \<ge> 2 ^ 1024 then (if x > 0 then PInf else NInf) else Fin (sgn x * y))"

text \<open>\<open>a + b\<close>, \<open>a - b\<close> and \<open>a / b\<close> on numbers.\<close>

fun js_add :: "jsnum \<Rightarrow> jsnum \<Rightarrow> jsnum" where
  "js_add NaN _ = NaN"
| "js_add _ NaN = NaN"
| "js_add (Fin a) (Fin b) = fl (a + b)"
| "js_add PInf NInf = NaN"
| "js_add NInf PInf = NaN"
| "js_add PInf _ = PInf"
| "js_add _ PInf = PInf"
| "js_add NInf _ = NInf"
| "js_add _ NInf = NInf"

fun js_sub :: "jsnum \<Rightarrow> jsnum \<Rightarrow> jsnum" where
  "js_sub NaN _ = NaN"
| "js_sub _ NaN = NaN"
| "js_sub (Fin a) (Fin b) = fl (a - b)"
| "js_sub PInf PInf = NaN"
| "js_sub NInf NInf = NaN"
| "js_sub PInf _ = PInf"
| "js_sub _ PInf = NInf"
| "js_sub NInf _ = NInf"
| "js_sub _ NInf = PInf"

fun js_quot :: "jsnum \<Rightarrow> jsnum \<Rightarrow> jsnum" where
  "js_quot NaN _ = NaN"
| "js_quot _ NaN = NaN"
| "js_quot (Fin a) (Fin b) =
     (if b = 0 then (if a = 0 then NaN else if a > 0 then PInf else NInf) else fl (a / b))"
| "js_quot (Fin a) _ = Fin 0"
| "js_quot PInf (Fin b) = (if b < 0 then NInf else PInf)"
| "js_quot NInf (Fin b) = (if b < 0 then PInf else NInf)"
| "js_quot _ _ = NaN"

subsection \<open>Numbers in template strings\<close>

definition digit_char :: "nat \<Rightarrow> char" where
  "digit_char n = char_of (48 + n)"

fun show_nat :: "nat \<Rightarrow> string" where
  "show_nat n = (if n < 10 then [digit_char n] else show_nat (n div 10) @ [digit_char (n mod 10)])"

declare show_nat.simps [simp del]

definition show_int :: "int \<Rightarrow> string" where
  "show_int i = (if i < 0 then ''-'' @ show_nat (nat (- i)) else show_nat (nat i))"

text \<open>
  \<open>`${x}`\<close> for an integer-valued number (the only values the code interpolates), in
  plain decimal notation (JavaScript switches to exponent notation from \<open>1e21\<close> on).
\<close>

fun show_jsnum :: "jsnum \<Rightarrow> string" where
  "show_jsnum (Fin x) = show_int \<lfloor>x\<rfloor>"
| "show_jsnum PInf = ''Infinity''"
| "show_jsnum NInf = ''-Infinity''"
| "show_jsnum NaN = ''NaN''"

section \<open>Configuration and grid\<close>

text \<open>
  The module-level constants read from the environment. They are taken to be finite
  numbers; \<open>COORD_DEC\<close> is an integer.
\<close>

record config =
  LAT_MIN :: real
  LAT_MAX :: real
  LON_MIN :: real
  LON_MAX :: real
  GRID_KM :: real
  COORD_DEC :: int

definition MID_LAT :: "config \<Rightarrow> real" where
  "MID_LAT cfg = (LAT_MIN cfg + LAT_MAX cfg) / 2"

definition KM_PER_DEG_LAT :: real where
  "KM_PER_DEG_LAT = 110.574"

definition KM_PER_DEG_LON :: "config \<Rightarrow> real" where
  "KM_PER_DEG_LON cfg = 111.320 * cos ((pi / 180) * MID_LAT cfg)"

definition DLAT :: "config \<Rightarrow> real" where
  "DLAT cfg = GRID_KM cfg / KM_PER_DEG_LAT"

definition DLON :: "config \<Rightarrow> real" where
  "DLON cfg = GRID_KM cfg / KM_PER_DEG_LON cfg"

record cell =
  id' :: string
  row :: nat
  col :: nat
  lat_min :: real
  lat_max :: real
  lon_min :: real
  lon_max :: real
  lat_c :: real
  lon_c :: real

text \<open>The loop tolerance \<open>1e-12\<close> of \<open>buildGrid\<close>.\<close>

definition EPS :: real where
  "EPS = 1 / 10 ^ 12"

text \<open>The object pushed by the body of the inner loop of \<open>buildGrid\<close>.\<close>

definition new_cell :: "config \<Rightarrow> real \<Rightarrow> nat \<Rightarrow> real \<Rightarrow> nat \<Rightarrow> cell" where
  "new_cell cfg lat r lon c =
     (let lat_max = min (lat + DLAT cfg) (LAT_MAX cfg);
          lon_max = min (lon + DLON cfg) (LON_MAX cfg)
      in \<lparr> id' = ''r'' @ show_nat r @ ''c'' @ show_nat c, row = r, col = c,
           lat_min = lat, lat_max = lat_max, lon_min = lon, lon_max = lon_max,
           lat_c = (lat + lat_max) / 2, lon_c = (lon + lon_max) / 2 \<rparr>)"

text \<open>
  The two nested \<open>for\<close> loops of \<open>buildGrid\<close>. Neither ends when its step is not
  positive and its start lies below the bound, so both are partial: \<open>None\<close> is a loop
  that never returns.
\<close>

partial_function (option) col_loop ::
  "config \<Rightarrow> real \<Rightarrow> nat \<Rightarrow> real \<Rightarrow> nat \<Rightarrow> cell list \<Rightarrow> cell list option" where
  "col_loop cfg lat r lon c cells =
     (if lon < LON_MAX cfg - EPS
      then col_loop cfg lat r (lon + DLON cfg) (c + 1) (cells @ [new_cell cfg lat r lon c])
      else Some cells)"

partial_function (option) row_loop ::
  "config \<Rightarrow> real \<Rightarrow> nat \<Rightarrow> cell list \<Rightarrow> (cell list \<times> nat) option" where
  "row_loop cfg lat r cells =
     (if lat < LAT_MAX cfg - EPS
      then Option.bind (col_loop cfg lat r (LON_MIN cfg) 0 cells)
             (\<lambda>cells'. row_loop cfg (lat + DLAT cfg) (r + 1) cells')
      else Some (cells, r))"

definition buildGrid :: "config \<Rightarrow> (cell list \<times> nat) option" where
  "buildGrid cfg = row_loop cfg (LAT_MIN cfg) 0 []"


section \<open>CSV ingestion\<close>

text \<open>
  \<open>String.prototype.trim\<close> and \<open>toLowerCase\<close> on ASCII text (strings are byte
  lists here; the Unicode white space and letters beyond ASCII are not modelled).
\<close>

definition is_ws :: "char \<Rightarrow> bool" where
  "is_ws ch = ((of_char ch :: nat) \<in> {9, 10, 11, 12, 13, 32})"

definition trim :: "string \<Rightarrow> string" where
  "trim s = rev (dropWhile is_ws (rev (dropWhile is_ws s)))"

definition lower_char :: "char \<Rightarrow> char" where
  "lower_char ch = (let n = (of_char ch :: nat) in if 65 \<le> n \<and> n \<le> 90 then char_of (n + 32) else ch)"

definition toLowerCase :: "string \<Rightarrow> string" where
  "toLowerCase s = map lower_char s"

text \<open>
  One record of the CSV stream, as the handler reads it: \<open>r_keys\<close> is
  \<open>Object.keys(row)\<close>, \<open>r_date\<close> is \<open>row.date\<close> and \<open>r_cell_id\<close> is
  \<open>row.cell_id\<close> (\<open>None\<close> when the column is missing), \<open>r_value\<close> is
  \<open>Number(row.value)\<close>, \<open>r_lat\<close> is \<open>Number(row.lat ?? row.lat_c)\<close> and \<open>r_lon\<close>
  is \<open>Number(row.lon ?? row.lon_c)\<close>. Parsing a decimal string into a number is not
  modelled: a record carries the number.
\<close>

record csv_row =
  r_keys :: "string list"
  r_date :: "string option"
  r_value :: jsnum
  r_cell_id :: "string option"
  r_lat :: jsnum
  r_lon :: jsnum

datatype schema_kind = CellSchema | PointSchema | UnknownSchema

text \<open>The local variables of \<open>loadCsv\<close> that the handler updates.\<close>

record load_state =
  gridMap :: "string \<rightharpoonup> (string \<rightharpoonup> jsnum)"
  dateSet :: "string list"
  schema :: "schema_kind option"

text \<open>\<open>Set.prototype.add\<close> on a set kept in insertion order.\<close>

definition set_add :: "string \<Rightarrow> string list \<Rightarrow> string list" where
  "set_add d ds = (if d \<in> set ds then ds else ds @ [d])"

definition detect_schema :: "string list \<Rightarrow> schema_kind" where
  "detect_schema headers =
     (let has = (\<lambda>h. h \<in> set headers)
      in if has ''cell_id'' \<and> has ''value'' then CellSchema
         else if (has ''lat'' \<or> has ''lat_c'') \<and> (has ''lon'' \<or> has ''lon_c'') \<and> has ''value''
         then PointSchema
         else UnknownSchema)"

text \<open>\<open>NROWS\<close> is the row count returned by \<open>buildGrid\<close>.\<close>

definition binPointToCell :: "config \<Rightarrow> nat \<Rightarrow> real \<Rightarrow> real \<Rightarrow> string option" where
  "binPointToCell cfg NROWS lat lon =
     (if \<not> (LAT_MIN cfg \<le> lat \<and> lat \<le> LAT_MAX cfg \<and> LON_MIN cfg \<le> lon \<and> lon \<le> LON_MAX cfg)
      then None
      else
        let r = js_floor (js_div (lat - LAT_MIN cfg) (DLAT cfg));
            r = js_max (Fin 0) (js_min (Fin (real NROWS - 1)) r);
            c = js_floor (js_div (lon - LON_MIN cfg) (DLON cfg))
        in Some (''r'' @ show_jsnum r @ ''c'' @ show_jsnum c))"

text \<open>
  The \<open>'data'\<close> handler of \<open>loadCsv\<close>. In the point branch \<open>gridMap.get(cid)\<close> is used
  without a test: when the id is not a key, \<open>per\<close> is \<open>undefined\<close> and \<open>per.has\<close>
  throws a \<open>TypeError\<close>.
\<close>

definition on_data :: "config \<Rightarrow> nat \<Rightarrow> csv_row \<Rightarrow> load_state \<Rightarrow> error + load_state" where
  "on_data cfg NROWS rw st0 =
     (let sch = (case schema st0 of None \<Rightarrow> detect_schema (map toLowerCase (r_keys rw)) | Some s \<Rightarrow> s);
          st1 = st0\<lparr>schema := Some sch\<rparr>
      in if sch = UnknownSchema then Inr st1
         else
           let d = trim (case r_date rw of None \<Rightarrow> [] | Some s \<Rightarrow> s)
           in if d = [] then Inr st1
              else
                let st2 = st1\<lparr>dateSet := set_add d (dateSet st1)\<rparr>
                in (case r_value rw of
                      Fin v \<Rightarrow>
                        if sch = CellSchema
                        then
                          let cid = trim (case r_cell_id rw of None \<Rightarrow> [] | Some s \<Rightarrow> s)
                          in (case gridMap st2 cid of
                                Some per \<Rightarrow> Inr (st2\<lparr>gridMap := (gridMap st2)(cid \<mapsto> per(d \<mapsto> Fin v))\<rparr>)
                              | None \<Rightarrow> Inr st2)
                        else
                          (case r_lat rw of
                             Fin lat \<Rightarrow>
                               (case r_lon rw of
                                  Fin lon \<Rightarrow>
                                    (case binPointToCell cfg NROWS lat lon of
                                       None \<Rightarrow> Inr st2
                                     | Some cid \<Rightarrow>
                                         (case gridMap st2 cid of
                                            None \<Rightarrow> Inl TypeError
                                          | Some per \<Rightarrow>
                                              Inr (st2\<lparr>gridMap := (gridMap st2)(cid \<mapsto>
                                                     per(d \<mapsto> (case per d of
                                                                    Some old \<Rightarrow> js_quot (js_add old (Fin v)) (Fin 2)
                                                                  | None \<Rightarrow> Fin v)))\<rparr>)))
                                | _ \<Rightarrow> Inr st2)
                           | _ \<Rightarrow> Inr st2)
                    | _ \<Rightarrow> Inr st2))"

text \<open>A loop whose body may throw: the first error ends it.\<close>

primrec foldE :: "('a \<Rightarrow> 's \<Rightarrow> error + 's) \<Rightarrow> 'a list \<Rightarrow> 's \<Rightarrow> error + 's" where
  "foldE f [] s = Inr s"
| "foldE f (x # xs) s = (case f x s of Inl e \<Rightarrow> Inl e | Inr s' \<Rightarrow> foldE f xs s')"

record load_result =
  res_gridMap :: "(string \<rightharpoonup> (string \<rightharpoonup> jsnum)) option"
  datesISO :: "string list"

text \<open>
  \<open>loadCsv\<close>: the argument is \<open>None\<close> when no CSV file was found, and otherwise the
  records the parser delivers, in order (a stream that fails to read is not modelled).
  \<open>Array.prototype.sort\<close> without a comparator orders strings by code unit.
\<close>

definition init_state :: "cell list \<Rightarrow> load_state" where
  "init_state CELLS = \<lparr> gridMap = map_of (map (\<lambda>c. (id' c, Map.empty)) CELLS), dateSet = [], schema = None \<rparr>"

definition loadCsv :: "config \<Rightarrow> cell list \<Rightarrow> nat \<Rightarrow> csv_row list option \<Rightarrow> error + load_result" where
  "loadCsv cfg CELLS NROWS csv =
     (case csv of
        None \<Rightarrow> Inr \<lparr> res_gridMap = None, datesISO = [] \<rparr>
      | Some rows \<Rightarrow>
          (case foldE (on_data cfg NROWS) rows (init_state CELLS) of
             Inl e \<Rightarrow> Inl e
           | Inr st \<Rightarrow> Inr \<lparr> res_gridMap = Some (gridMap st), datesISO = sort (dateSet st) \<rparr>))"

section \<open>Temporal partition\<close>

text \<open>
  The time value of a \<open>Date\<close> is an integer (milliseconds since the epoch, UTC), or
  \<open>None\<close> for an Invalid Date, whose time value is \<open>NaN\<close>. \<open>new Date(s)\<close> is the
  engine's parser, which is not code of this repository: it is the parameter \<open>parse\<close>
  (a date-only ISO string parses to UTC midnight of its day, a string the engine does not
  recognise to an Invalid Date). The local time zone is the parameter \<open>tz\<close>, the offset of
  local time from UTC in milliseconds, taken to be constant (as in Asia/Bangkok; changes of
  the offset by daylight saving are not modelled).
\<close>

definition msPerDay :: int where
  "msPerDay = 86400000"

text \<open>The local calendar day of a time value, as a day number.\<close>

definition local_day :: "int \<Rightarrow> int \<Rightarrow> int" where
  "local_day tz t = (t + tz) div msPerDay"

text \<open>\<open>t.setHours(0,0,0,0)\<close>: local midnight of the local day of \<open>t\<close>.\<close>

definition setHours0 :: "int \<Rightarrow> int \<Rightarrow> int" where
  "setHours0 tz t = local_day tz t * msPerDay - tz"

text \<open>\<open>toD\<close> of \<open>main\<close>; on an Invalid Date \<open>setHours\<close> leaves the time value \<open>NaN\<close>.\<close>

definition toD :: "(string \<Rightarrow> int option) \<Rightarrow> int \<Rightarrow> string \<Rightarrow> int option" where
  "toD parse tz s = (case parse s of None \<Rightarrow> None | Some t \<Rightarrow> Some (setHours0 tz t))"

text \<open>\<open>a < b\<close> and \<open>a.getTime() === b.getTime()\<close> on dates: false when a time value is \<open>NaN\<close>.\<close>

definition date_lt :: "int option \<Rightarrow> int option \<Rightarrow> bool" where
  "date_lt a b = (case a of None \<Rightarrow> False | Some x \<Rightarrow> (case b of None \<Rightarrow> False | Some y \<Rightarrow> x < y))"

definition date_eq :: "int option \<Rightarrow> int option \<Rightarrow> bool" where
  "date_eq a b = (case a of None \<Rightarrow> False | Some x \<Rightarrow> (case b of None \<Rightarrow> False | Some y \<Rightarrow> x = y))"

text \<open>\<open>DATES_ISO.map((d,i)=>({d,i}))\<close>.\<close>

definition indexed :: "string list \<Rightarrow> (string \<times> nat) list" where
  "indexed DATES_ISO = zip DATES_ISO [0..<length DATES_ISO]"

definition PAST_IDX :: "(string \<Rightarrow> int option) \<Rightarrow> int \<Rightarrow> string list \<Rightarrow> string \<Rightarrow> nat list" where
  "PAST_IDX parse tz DATES_ISO TODAY_ISO =
     map snd (filter (\<lambda>x. date_lt (toD parse tz (fst x)) (toD parse tz TODAY_ISO)) (indexed DATES_ISO))"

definition NOW_IDX :: "(string \<Rightarrow> int option) \<Rightarrow> int \<Rightarrow> string list \<Rightarrow> string \<Rightarrow> nat list" where
  "NOW_IDX parse tz DATES_ISO TODAY_ISO =
     map snd (filter (\<lambda>x. date_eq (toD parse tz (fst x)) (toD parse tz TODAY_ISO)) (indexed DATES_ISO))"

definition FWD_IDX :: "(string \<Rightarrow> int option) \<Rightarrow> int \<Rightarrow> string list \<Rightarrow> string \<Rightarrow> nat list" where
  "FWD_IDX parse tz DATES_ISO TODAY_ISO =
     map snd (filter (\<lambda>x. date_lt (toD parse tz TODAY_ISO) (toD parse tz (fst x))) (indexed DATES_ISO))"

section \<open>Feature generation\<close>

text \<open>
  \<open>Number(x.toFixed(r))\<close> for \<open>0 \<le> r \<le> 100\<close>: the nearest multiple of \<open>10^-r\<close>, ties
  away from zero; from \<open>1e21\<close> on \<open>toFixed\<close> prints the number itself. Outside that
  range of \<open>r\<close>, \<open>toFixed\<close> throws a \<open>RangeError\<close>. The result is the number that the
  decimal string denotes (reading it back into the nearest double is not modelled).
  \<open>toFixed_num\<close> is for a coordinate, \<open>toFixed_js\<close> for a data value, which may be
  infinite or \<open>NaN\<close> and is then printed and read back as it is.
\<close>

definition fixed :: "nat \<Rightarrow> real \<Rightarrow> real" where
  "fixed r x =
     (if \<bar>x\<bar> \<ge> 10 ^ 21 then x
      else sgn x * of_int \<lfloor>\<bar>x\<bar> * 10 ^ r + 1 / 2\<rfloor> / 10 ^ r)"

definition toFixed_num :: "int \<Rightarrow> real \<Rightarrow> error + real" where
  "toFixed_num r x = (if r < 0 \<or> 100 < r then Inl RangeError else Inr (fixed (nat r) x))"

definition fixed_js :: "nat \<Rightarrow> jsnum \<Rightarrow> jsnum" where
  "fixed_js r v = (case v of Fin x \<Rightarrow> Fin (fixed r x) | _ \<Rightarrow> v)"

definition toFixed_js :: "int \<Rightarrow> jsnum \<Rightarrow> error + jsnum" where
  "toFixed_js r v = (if r < 0 \<or> 100 < r then Inl RangeError else Inr (fixed_js (nat r) v))"

definition bindE :: "error + 'a \<Rightarrow> ('a \<Rightarrow> error + 'b) \<Rightarrow> error + 'b" where
  "bindE m f = (case m of Inl e \<Rightarrow> Inl e | Inr x \<Rightarrow> f x)"

definition cellPolygon :: "config \<Rightarrow> cell \<Rightarrow> error + (real \<times> real) list" where
  "cellPolygon cfg c =
     (let r = COORD_DEC cfg
      in bindE (toFixed_num r (lon_min c)) (\<lambda>x0.
         bindE (toFixed_num r (lat_min c)) (\<lambda>y0.
         bindE (toFixed_num r (lon_max c)) (\<lambda>x1.
         bindE (toFixed_num r (lat_max c)) (\<lambda>y1.
           Inr [(x0, y0), (x1, y0), (x1, y1), (x0, y1), (x0, y0)])))))"

record feature =
  coordinates :: "(real \<times> real) list"
  time :: "string option"
  cell_id :: string
  f_row :: nat
  f_col :: nat
  center_lat :: real
  center_lon :: real
  f_value :: jsnum

text \<open>\<open>xs[i]\<close>: \<open>undefined\<close> (here \<open>None\<close>) out of range.\<close>

definition at_index :: "'a list \<Rightarrow> nat \<Rightarrow> 'a option" where
  "at_index xs i = (if i < length xs then Some (xs ! i) else None)"

text \<open>\<open>Number(per.get(k) ?? 0)\<close>, where \<open>k\<close> may be \<open>undefined\<close>.\<close>

definition get0 :: "(string \<rightharpoonup> jsnum) \<Rightarrow> string option \<Rightarrow> jsnum" where
  "get0 per k = (case k of None \<Rightarrow> Fin 0 | Some s \<Rightarrow> (case per s of None \<Rightarrow> Fin 0 | Some v \<Rightarrow> v))"

text \<open>
  The body of the inner loop of \<open>buildFeatures\<close>, for date index \<open>ti\<close> and cell \<open>c\<close>.
  \<open>GRID_MAP\<close> is \<open>None\<close> for \<open>null\<close> (no CSV file); reading it then, or reading the map
  of a cell id that is not a key, throws a \<open>TypeError\<close>.
\<close>

definition feature_step ::
  "config \<Rightarrow> string list \<Rightarrow> (string \<rightharpoonup> (string \<rightharpoonup> jsnum)) option \<Rightarrow> string \<Rightarrow> nat \<Rightarrow> jsnum option
     \<Rightarrow> nat \<Rightarrow> cell \<Rightarrow> feature list \<Rightarrow> error + feature list" where
  "feature_step cfg DATES_ISO GRID_MAP metric stride minValue ti c feats =
     (let d_iso = at_index DATES_ISO ti
      in if stride > 1 \<and> (row c mod stride \<noteq> 0 \<or> col c mod stride \<noteq> 0) then Inr feats
         else
           (case GRID_MAP of
              None \<Rightarrow> Inl TypeError
            | Some gm \<Rightarrow>
                (case gm (id' c) of
                   None \<Rightarrow> Inl TypeError
                 | Some per \<Rightarrow>
                     let v0 = get0 per d_iso;
                         vPrev = (if ti > 0 then get0 per (at_index DATES_ISO (ti - 1)) else Fin 0);
                         val = (if metric = ''delta'' then js_sub v0 vPrev else v0)
                     in if minValue \<noteq> None \<and> metric = ''value'' \<and> \<not> js_gt val (the minValue)
                        then Inr feats
                        else
                          bindE (cellPolygon cfg c) (\<lambda>poly.
                          bindE (toFixed_num (COORD_DEC cfg) (lat_c c)) (\<lambda>clat.
                          bindE (toFixed_num (COORD_DEC cfg) (lon_c c)) (\<lambda>clon.
                          bindE (toFixed_js 4 val) (\<lambda>v.
                            Inr (feats @ [\<lparr> coordinates = poly, time = d_iso, cell_id = id' c,
                                            f_row = row c, f_col = col c,
                                            center_lat = clat, center_lon = clon,
                                            f_value = v \<rparr>]))))))))"

definition buildFeatures ::
  "config \<Rightarrow> cell list \<Rightarrow> string list \<Rightarrow> (string \<rightharpoonup> (string \<rightharpoonup> jsnum)) option \<Rightarrow> nat list
     \<Rightarrow> string \<Rightarrow> nat \<Rightarrow> jsnum option \<Rightarrow> error + feature list" where
  "buildFeatures cfg CELLS DATES_ISO GRID_MAP idx metric stride minValue =
     foldE (\<lambda>ti feats. foldE (feature_step cfg DATES_ISO GRID_MAP metric stride minValue ti) CELLS feats)
       idx []"


section \<open>Loop-free descriptions\<close>

text \<open>
  What the body of the inner loop of \<open>buildFeatures\<close> computes for one date index and
  one cell, written without the loop and without the error branches: the value \<open>val\<close>,
  the test that lets the cell through the stride and threshold filters, and the feature
  pushed. They are related to \<open>buildFeatures\<close> by the lemmas below.
\<close>

definition cell_value :: "string list \<Rightarrow> (string \<rightharpoonup> jsnum) \<Rightarrow> string \<Rightarrow> nat \<Rightarrow> jsnum" where
  "cell_value DATES_ISO per metric ti =
     (let v0 = get0 per (at_index DATES_ISO ti);
          vPrev = (if ti > 0 then get0 per (at_index DATES_ISO (ti - 1)) else Fin 0)
      in if metric = ''delta'' then js_sub v0 vPrev else v0)"

definition stride_ok :: "nat \<Rightarrow> cell \<Rightarrow> bool" where
  "stride_ok stride c = (\<not> (stride > 1 \<and> (row c mod stride \<noteq> 0 \<or> col c mod stride \<noteq> 0)))"

definition min_ok :: "string \<Rightarrow> jsnum option \<Rightarrow> jsnum \<Rightarrow> bool" where
  "min_ok metric minValue val = (\<not> (minValue \<noteq> None \<and> metric = ''value'' \<and> \<not> js_gt val (the minValue)))"

definition kept ::
  "string list \<Rightarrow> (string \<rightharpoonup> (string \<rightharpoonup> jsnum)) \<Rightarrow> string \<Rightarrow> nat \<Rightarrow> jsnum option \<Rightarrow> nat \<Rightarrow> cell \<Rightarrow> bool" where
  "kept DATES_ISO gm metric stride minValue ti c =
     (stride_ok stride c \<and> min_ok metric minValue (cell_value DATES_ISO (the (gm (id' c))) metric ti))"

definition feature_of ::
  "config \<Rightarrow> string list \<Rightarrow> (string \<rightharpoonup> (string \<rightharpoonup> jsnum)) \<Rightarrow> string \<Rightarrow> nat \<Rightarrow> cell \<Rightarrow> feature" where
  "feature_of cfg DATES_ISO gm metric ti c =
     (let r = nat (COORD_DEC cfg);
          x0 = fixed r (lon_min c); y0 = fixed r (lat_min c);
          x1 = fixed r (lon_max c); y1 = fixed r (lat_max c)
      in \<lparr> coordinates = [(x0, y0), (x1, y0), (x1, y1), (x0, y1), (x0, y0)],
           time = at_index DATES_ISO ti, cell_id = id' c, f_row = row c, f_col = col c,
           center_lat = fixed r (lat_c c), center_lon = fixed r (lon_c c),
           f_value = fixed_js 4 (cell_value DATES_ISO (the (gm (id' c))) metric ti) \<rparr>)"

text \<open>
  The grid without the loops: \<open>steps a d M n\<close> says that a loop from \<open>a\<close> by \<open>d\<close> to
  the bound \<open>M\<close> runs its body \<open>n\<close> times, \<open>cell_at cfg i j\<close> is the cell pushed for row
  \<open>i\<close> and column \<open>j\<close>, and \<open>grid_cells cfg n m\<close> is the list of cells of \<open>n\<close> rows of
  \<open>m\<close> columns. A cell covers the closed rectangle \<open>cell_box\<close>, whose
  interior is \<open>cell_interior\<close> (points are pairs of a latitude and a longitude).
\<close>

definition steps :: "real \<Rightarrow> real \<Rightarrow> real \<Rightarrow> nat \<Rightarrow> bool" where
  "steps a d M n = ((\<forall>k < n. a + real k * d < M - EPS) \<and> \<not> (a + real n * d < M - EPS))"

definition cell_at :: "config \<Rightarrow> nat \<Rightarrow> nat \<Rightarrow> cell" where
  "cell_at cfg i j =
     new_cell cfg (LAT_MIN cfg + real i * DLAT cfg) i (LON_MIN cfg + real j * DLON cfg) j"

definition grid_cells :: "config \<Rightarrow> nat \<Rightarrow> nat \<Rightarrow> cell list" where
  "grid_cells cfg n m = concat (map (\<lambda>i. map (cell_at cfg i) [0..<m]) [0..<n])"

definition cell_box :: "cell \<Rightarrow> (real \<times> real) set" where
  "cell_box c = {(y, x). lat_min c \<le> y \<and> y \<le> lat_max c \<and> lon_min c \<le> x \<and> x \<le> lon_max c}"

definition cell_interior :: "cell \<Rightarrow> (real \<times> real) set" where
  "cell_interior c = {(y, x). lat_min c < y \<and> y < lat_max c \<and> lon_min c < x \<and> x < lon_max c}"

text \<open>The date key the \<open>'data'\<close> handler computes for a record: \<open>(row.date || '').trim()\<close>.\<close>

definition row_date :: "csv_row \<Rightarrow> string" where
  "row_date rw = trim (case r_date rw of None \<Rightarrow> [] | Some s \<Rightarrow> s)"

section \<open>Example data\<close>

text \<open>
  A configuration whose grid has two rows and two columns: the mid latitude is 0, so
  that a degree of longitude is 111.32 km and \<open>DLON\<close> is 1.
\<close>

definition cfg0 :: config where
  "cfg0 = \<lparr> LAT_MIN = -1, LAT_MAX = 1, LON_MIN = 0, LON_MAX = 2, GRID_KM = 111.32, COORD_DEC = 4 \<rparr>"

definition CELLS0 :: "cell list" where
  "CELLS0 = (case buildGrid cfg0 of Some (cells, nrows) \<Rightarrow> cells | None \<Rightarrow> [])"

definition NROWS0 :: nat where
  "NROWS0 = (case buildGrid cfg0 of Some (cells, nrows) \<Rightarrow> nrows | None \<Rightarrow> 0)"

definition dates3 :: "string list" where
  "dates3 = [''2024-01-01'', ''2024-01-02'', ''2024-01-03'']"

text \<open>A point record at latitude 0 and longitude 0.5, and a cell record for \<open>r0c0\<close>.\<close>

definition pt_row :: "string \<Rightarrow> real \<Rightarrow> csv_row" where
  "pt_row d v = \<lparr> r_keys = [''date'', ''lat'', ''lon'', ''value''], r_date = Some d,
                  r_value = Fin v, r_cell_id = None, r_lat = Fin 0, r_lon = Fin (1 / 2) \<rparr>"

definition cell_row :: "string \<Rightarrow> string \<Rightarrow> jsnum \<Rightarrow> csv_row" where
  "cell_row cid d v = \<lparr> r_keys = [''cell_id'', ''date'', ''value''], r_date = Some d,
                  r_value = v, r_cell_id = Some cid, r_lat = NaN, r_lon = NaN \<rparr>"

text \<open>The cell maps after the first point record with value 1 and the first cell record with value 0.5.\<close>

definition gm_pt1 :: "string \<rightharpoonup> (string \<rightharpoonup> jsnum)" where
  "gm_pt1 = (gridMap (init_state CELLS0))(''r0c0'' \<mapsto> [''2024-01-01'' \<mapsto> Fin 1])"

definition gm_cell1 :: "string \<rightharpoonup> (string \<rightharpoonup> jsnum)" where
  "gm_cell1 = (gridMap (init_state CELLS0))(''r0c0'' \<mapsto> [''2024-01-01'' \<mapsto> Fin (1 / 2)])"

text \<open>
  Cell maps for \<open>buildFeatures\<close>, all values being doubles: \<open>gm0\<close> after the cell records
  \<open>(r0c0, 2024-01-01, 0.5)\<close> and \<open>(r0c0, 2024-01-02, 0.75)\<close>; \<open>gmD\<close> with the doubles 10
  and 3.77375 (the double nearest to that decimal), whose difference is not a double;
  \<open>gm1\<close> with the value \<open>2^-20\<close>, which has more than four decimals; \<open>gm2\<close> with the value
  \<open>0.5 + 2^-20\<close>.
\<close>

definition gm0 :: "string \<rightharpoonup> (string \<rightharpoonup> jsnum)" where
  "gm0 = (gridMap (init_state CELLS0))(''r0c0'' \<mapsto>
            [''2024-01-01'' \<mapsto> Fin (1 / 2), ''2024-01-02'' \<mapsto> Fin (3 / 4)])"

definition gmD :: "string \<rightharpoonup> (string \<rightharpoonup> jsnum)" where
  "gmD = (gridMap (init_state CELLS0))(''r0c0'' \<mapsto>
            [''2024-01-01'' \<mapsto> Fin 10, ''2024-01-02'' \<mapsto> Fin (8497729546894705 / 2251799813685248)])"

definition gm1 :: "string \<rightharpoonup> (string \<rightharpoonup> jsnum)" where
  "gm1 = (gridMap (init_state CELLS0))(''r0c0'' \<mapsto> [''2024-01-01'' \<mapsto> Fin (1 / 1048576)])"

definition gm2 :: "string \<rightharpoonup> (string \<rightharpoonup> jsnum)" where
  "gm2 = (gridMap (init_state CELLS0))(''r0c0'' \<mapsto> [''2024-01-01'' \<mapsto> Fin (524289 / 1048576)])"

definition dates2 :: "string list" where
  "dates2 = [''2024-01-01'', ''2024-01-02'']"

text \<open>
  The time values of \<open>new Date(s)\<close> on the strings of the examples: UTC midnight of the
  three days, and an Invalid Date for \<open>n/a\<close>; no other string occurs in them. The time
  zone of the examples is UTC+7.
\<close>

definition parse_ex :: "string \<Rightarrow> int option" where
  "parse_ex = [''2024-01-01'' \<mapsto> 1704067200000, ''2024-01-02'' \<mapsto> 1704153600000,
               ''2024-01-03'' \<mapsto> 1704240000000]"

definition tz_ex :: int where
  "tz_ex = 25200000"

text \<open>A point record on the eastern edge of the bounding box of \<open>cfg0\<close>.\<close>

definition edge_row :: csv_row where
  "edge_row = \<lparr> r_keys = [''date'', ''lat'', ''lon'', ''value''], r_date = Some ''2024-01-01'',
                 r_value = Fin 1, r_cell_id = None, r_lat = Fin 0, r_lon = Fin 2 \<rparr>"

text \<open>
  The configuration \<open>cfg0\<close> with its eastern bound moved out by \<open>5e-13\<close>, which is less
  than the loop tolerance.
\<close>

definition cfgS :: config where
  "cfgS = \<lparr> LAT_MIN = -1, LAT_MAX = 1, LON_MIN = 0, LON_MAX = 2 + 5 / 10 ^ 13, GRID_KM = 111.32,
             COORD_DEC = 4 \<rparr>"

section \<open>Evaluation of the examples\<close>

lemma DLON_cfg0: "DLON cfg0 = 1"
  by (simp add: DLON_def KM_PER_DEG_LON_def MID_LAT_def cfg0_def)

lemma DLAT_cfg0: "DLAT cfg0 = 55660 / 55287"
  by (simp add: DLAT_def KM_PER_DEG_LAT_def cfg0_def)

lemma cfg0_sel:
  "LAT_MIN cfg0 = -1" "LAT_MAX cfg0 = 1" "LON_MIN cfg0 = 0" "LON_MAX cfg0 = 2" "COORD_DEC cfg0 = 4"
  by (simp_all add: cfg0_def)

lemma show_nat_0: "show_nat 0 = ''0''"
  by (simp add: show_nat.simps digit_char_def char_of_def bit_Suc_0_iff)

lemma show_nat_1: "show_nat (Suc 0) = ''1''"
  by (simp add: show_nat.simps digit_char_def char_of_def bit_Suc_0_iff)

lemma show_nat_2: "show_nat 2 = ''2''"
  by (simp add: show_nat.simps digit_char_def char_of_def bit_Suc_0_iff)

lemma buildGrid_cfg0:
  "buildGrid cfg0 = Some
     ([\<lparr>id' = ''r0c0'', row = 0, col = 0, lat_min = - 1, lat_max = 373 / 55287, lon_min = 0,
         lon_max = 1, lat_c = - (27457 / 55287), lon_c = 1 / 2\<rparr>,
       \<lparr>id' = ''r0c1'', row = 0, col = 1, lat_min = - 1, lat_max = 373 / 55287, lon_min = 1,
         lon_max = 2, lat_c = - (27457 / 55287), lon_c = 3 / 2\<rparr>,
       \<lparr>id' = ''r1c0'', row = 1, col = 0, lat_min = 373 / 55287, lat_max = 1, lon_min = 0,
         lon_max = 1, lat_c = 27830 / 55287, lon_c = 1 / 2\<rparr>,
       \<lparr>id' = ''r1c1'', row = 1, col = 1, lat_min = 373 / 55287, lat_max = 1, lon_min = 1,
         lon_max = 2, lat_c = 27830 / 55287, lon_c = 3 / 2\<rparr>], 2)"
  by (simp add: buildGrid_def row_loop.simps col_loop.simps EPS_def DLON_cfg0 DLAT_cfg0 cfg0_sel
      new_cell_def Let_def show_nat_0 show_nat_1)

lemma NROWS0: "NROWS0 = 2"
  by (simp add: NROWS0_def buildGrid_cfg0)

lemma CELLS0:
  "CELLS0 =
     [\<lparr>id' = ''r0c0'', row = 0, col = 0, lat_min = - 1, lat_max = 373 / 55287, lon_min = 0,
        lon_max = 1, lat_c = - (27457 / 55287), lon_c = 1 / 2\<rparr>,
      \<lparr>id' = ''r0c1'', row = 0, col = 1, lat_min = - 1, lat_max = 373 / 55287, lon_min = 1,
        lon_max = 2, lat_c = - (27457 / 55287), lon_c = 3 / 2\<rparr>,
      \<lparr>id' = ''r1c0'', row = 1, col = 0, lat_min = 373 / 55287, lat_max = 1, lon_min = 0,
        lon_max = 1, lat_c = 27830 / 55287, lon_c = 1 / 2\<rparr>,
      \<lparr>id' = ''r1c1'', row = 1, col = 1, lat_min = 373 / 55287, lat_max = 1, lon_min = 1,
        lon_max = 2, lat_c = 27830 / 55287, lon_c = 3 / 2\<rparr>]"
  by (simp add: CELLS0_def buildGrid_cfg0)

lemma init_state_CELLS0:
  "init_state CELLS0 =
     \<lparr> gridMap = [''r1c1'' \<mapsto> Map.empty, ''r1c0'' \<mapsto> Map.empty, ''r0c1'' \<mapsto> Map.empty,
                   ''r0c0'' \<mapsto> Map.empty],
       dateSet = [], schema = None \<rparr>"
  by (simp add: init_state_def CELLS0)

lemma bin_example: "binPointToCell cfg0 2 0 (1 / 2) = Some ''r0c0''"
  by (simp add: binPointToCell_def cfg0_sel DLON_cfg0 DLAT_cfg0 js_div_def show_int_def show_nat_0)

section \<open>Binary64 arithmetic: evaluation\<close>

lemma floor_log2:
  assumes "2 powi e \<le> a" and "a < 2 powi (e + 1)"
  shows "\<lfloor>log 2 a\<rfloor> = e"
proof -
  have pos: "0 < a"
    using assms(1) by (smt (verit) zero_less_power_int)
  have p: "(2::real) powr (of_int k) = 2 powi k" for k :: int
    by (rule powr_real_of_int') simp_all
  have "2 powr (of_int e) \<le> a" "a < 2 powr (of_int (e + 1))"
    using assms unfolding p by blast+
  then have "of_int e \<le> log 2 a" "log 2 a < of_int (e + 1)"
    using pos by (simp_all add: le_log_iff log_less_iff)
  then show ?thesis
    by linarith
qed

text \<open>\<open>fl\<close> at a number whose binary exponent \<open>e\<close> is known.\<close>

lemma fl_eval:
  assumes "2 powi e \<le> \<bar>x\<bar>" and "\<bar>x\<bar> < 2 powi (e + 1)" and "- 1022 \<le> e"
  shows "fl x = (let u = 2 powi (e - 52); y = of_int (round_half_even (\<bar>x\<bar> / u)) * u
                 in if y \<ge> 2 ^ 1024 then (if x > 0 then PInf else NInf) else Fin (sgn x * y))"
proof -
  have "x \<noteq> 0"
    using assms(1) by (smt (verit) zero_less_power_int abs_zero)
  then show ?thesis
    using floor_log2[OF assms(1,2)] assms(3) by (simp add: fl_def)
qed

lemma fl_examples:
  "fl 3 = Fin 3" "fl (3 / 2) = Fin (3 / 2)" "fl (1 / 4) = Fin (1 / 4)" "fl 10 = Fin 10"
  "fl (5 / 4) = Fin (5 / 4)" "fl (5 / 8) = Fin (5 / 8)"
proof -
  show "fl 3 = Fin 3"
    by (subst fl_eval[where e = 1]) (simp_all add: round_half_even_def Let_def power_int_minus)
  show "fl (3 / 2) = Fin (3 / 2)"
    by (subst fl_eval[where e = 0]) (simp_all add: round_half_even_def Let_def power_int_minus)
  show "fl (1 / 4) = Fin (1 / 4)"
    by (subst fl_eval[where e = "- 2"]) (simp_all add: round_half_even_def Let_def power_int_minus)
  show "fl 10 = Fin 10"
    by (subst fl_eval[where e = 3]) (simp_all add: round_half_even_def Let_def power_int_minus)
  show "fl (5 / 4) = Fin (5 / 4)"
    by (subst fl_eval[where e = 0]) (simp_all add: round_half_even_def Let_def power_int_minus)
  show "fl (5 / 8) = Fin (5 / 8)"
    by (subst fl_eval[where e = "- 1"]) (simp_all add: round_half_even_def Let_def power_int_minus)
qed

text \<open>
  The difference of the doubles 3.77375 and 10 is not a double: it lies halfway between
  two doubles and is rounded to the even one, \<open>-6.22625000000000028\<close>.
\<close>

lemma fl_difference:
  "fl (8497729546894705 / 2251799813685248 - 10) = Fin (- (876266786872361 / 140737488355328))"
  by (subst fl_eval[where e = 2]) (simp_all add: round_half_even_def Let_def power_int_minus)

lemma fl_difference_normal:
  "fl (- (14020268589957775 / 2251799813685248)) = Fin (- (876266786872361 / 140737488355328))"
  using fl_difference by simp

lemma round_half_even_int: "round_half_even (of_int n) = n"
  by (simp add: round_half_even_def)

text \<open>A number with a significand of 53 bits in the range of the doubles is rounded to itself.\<close>

lemma fl_exact:
  assumes "\<bar>m\<bar> < 2 ^ 53" and "- 1074 \<le> k" and "\<bar>of_int m * 2 powi k\<bar> < (2::real) ^ 1024"
  shows "fl (of_int m * 2 powi k) = Fin (of_int m * 2 powi k)"
proof (cases "m = 0")
  case True
  then show ?thesis
    by (simp add: fl_def)
next
  case False
  let ?x = "of_int m * 2 powi k :: real"
  let ?a = "\<bar>?x\<bar>"
  have a: "?a = of_int \<bar>m\<bar> * 2 powi k"
    by (simp add: abs_mult)
  have apos: "0 < ?a"
    using False by simp
  have "of_int \<bar>m\<bar> < (2::real) ^ 53"
    using assms(1) by (metis of_int_less_iff of_int_numeral of_int_power)
  then have "?a < 2 ^ 53 * 2 powi k"
    unfolding a by (simp add: mult_less_cancel_right_pos)
  also have "\<dots> = 2 powi (k + 53)"
    by (simp add: power_int_add)
  finally have "?a < 2 powi (k + 53)" .
  moreover have "(2::real) powr (of_int (k + 53)) = 2 powi (k + 53)"
    by (rule powr_real_of_int') simp_all
  ultimately have "?a < 2 powr (of_int (k + 53))"
    by (simp only:)
  then have "log 2 ?a < of_int (k + 53)"
    using apos by (simp add: log_less_iff)
  then have L: "\<lfloor>log 2 ?a\<rfloor> \<le> k + 52"
    by linarith
  define e where "e = max \<lfloor>log 2 ?a\<rfloor> (- 1022)"
  have e: "e \<le> k + 52"
    using L assms(2) by (simp add: e_def)
  define j where "j = nat (k + 52 - e)"
  have k: "k = (e - 52) + int j"
    using e by (simp add: j_def)
  have "?a / 2 powi (e - 52) = of_int \<bar>m\<bar> * 2 powi (int j)"
    unfolding a by (subst k) (simp add: power_int_add)
  also have "\<dots> = of_int (\<bar>m\<bar> * 2 ^ j)"
    by simp
  finally have q: "?a / 2 powi (e - 52) = of_int (\<bar>m\<bar> * 2 ^ j)" .
  have y: "of_int (round_half_even (?a / 2 powi (e - 52))) * 2 powi (e - 52) = ?a"
    unfolding q round_half_even_int unfolding q[symmetric] by simp
  have "?x \<noteq> 0"
    using False by simp
  then have "fl ?x = (if ?a \<ge> 2 ^ 1024 then (if ?x > 0 then PInf else NInf) else Fin (sgn ?x * ?a))"
    unfolding fl_def Let_def e_def[symmetric] y by simp
  also have "\<dots> = Fin (sgn ?x * ?a)"
    using assms(3) by simp
  also have "sgn ?x * ?a = ?x"
    by (simp only: mult_sgn_abs)
  finally show ?thesis .
qed

text \<open>A sum beyond the largest double is an infinity, and so is its half.\<close>

lemma merge_overflow: "js_quot (js_add (Fin (2 ^ 1023)) (Fin (2 ^ 1023))) (Fin 2) = PInf"
proof -
  have "fl (2 ^ 1023 + 2 ^ 1023) = PInf"
    by (subst fl_eval[where e = 1024]) (simp_all add: round_half_even_def Let_def)
  then show ?thesis
    by simp
qed


section \<open>Temporal partition: properties\<close>

lemma setHours0_less: "setHours0 tz a < setHours0 tz b \<longleftrightarrow> local_day tz a < local_day tz b"
  by (simp add: setHours0_def msPerDay_def)

lemma setHours0_eq: "setHours0 tz a = setHours0 tz b \<longleftrightarrow> local_day tz a = local_day tz b"
  by (simp add: setHours0_def msPerDay_def)

lemma toD_lt:
  "date_lt (toD parse tz s) (toD parse tz s') \<longleftrightarrow>
     (\<exists>t t'. parse s = Some t \<and> parse s' = Some t' \<and> local_day tz t < local_day tz t')"
  by (auto simp: date_lt_def toD_def setHours0_less split: option.splits)

lemma toD_eq:
  "date_eq (toD parse tz s) (toD parse tz s') \<longleftrightarrow>
     (\<exists>t t'. parse s = Some t \<and> parse s' = Some t' \<and> local_day tz t = local_day tz t')"
  by (auto simp: date_eq_def toD_def setHours0_eq split: option.splits)

lemma indexed_snd: "map snd (indexed xs) = [0..<length xs]"
  by (simp add: indexed_def)

lemma idx_filter_sorted: "sorted_wrt (<) (map snd (filter P (indexed xs)))"
proof -
  have "sorted_wrt (<) (map snd (indexed xs))"
    by (simp add: indexed_snd)
  then have "sorted_wrt (\<lambda>a b. snd a < snd b) (indexed xs)"
    by (simp add: sorted_wrt_map)
  then have "sorted_wrt (\<lambda>a b. snd a < snd b) (filter P (indexed xs))"
    by (rule sorted_wrt_filter)
  then show ?thesis
    by (simp add: sorted_wrt_map)
qed

lemma idx_filter_set: "set (map snd (filter P (indexed xs))) = {i. i < length xs \<and> P (xs ! i, i)}"
proof -
  have "set (indexed xs) = {(xs ! i, i) | i. i < length xs}"
    by (auto simp: indexed_def set_zip)
  then show ?thesis
    by (auto simp: image_iff)
qed

lemma in_PAST:
  "i \<in> set (PAST_IDX parse tz ds s) \<longleftrightarrow>
     i < length ds \<and> (\<exists>t t'. parse (ds ! i) = Some t \<and> parse s = Some t' \<and> local_day tz t < local_day tz t')"
  unfolding PAST_IDX_def idx_filter_set by (simp add: toD_lt)

lemma in_NOW:
  "i \<in> set (NOW_IDX parse tz ds s) \<longleftrightarrow>
     i < length ds \<and> (\<exists>t t'. parse (ds ! i) = Some t \<and> parse s = Some t' \<and> local_day tz t = local_day tz t')"
  unfolding NOW_IDX_def idx_filter_set by (simp add: toD_eq)

lemma in_FWD:
  "i \<in> set (FWD_IDX parse tz ds s) \<longleftrightarrow>
     i < length ds \<and> (\<exists>t t'. parse (ds ! i) = Some t \<and> parse s = Some t' \<and> local_day tz t' < local_day tz t)"
  unfolding FWD_IDX_def idx_filter_set by (auto simp: toD_lt)

text \<open>
  Claim C2, amended. For a reference date that parses to a valid date, an index of the
  date index is in \<open>PAST_IDX\<close>, \<open>NOW_IDX\<close> or \<open>FWD_IDX\<close> exactly when its date parses
  and its local calendar day is before, equal to or after the reference day; an index
  whose date does not parse is in none of the three. So the three lists together hold
  exactly the indices of the dates that parse, all the indices when every date parses;
  they are pairwise disjoint, and each is strictly ascending.
\<close>

theorem partition_of_valid_dates:
  assumes "parse TODAY_ISO = Some t0"
  shows "(\<forall>i < length DATES_ISO.
            (i \<in> set (PAST_IDX parse tz DATES_ISO TODAY_ISO) \<longleftrightarrow>
               (\<exists>t. parse (DATES_ISO ! i) = Some t \<and> local_day tz t < local_day tz t0))
          \<and> (i \<in> set (NOW_IDX parse tz DATES_ISO TODAY_ISO) \<longleftrightarrow>
               (\<exists>t. parse (DATES_ISO ! i) = Some t \<and> local_day tz t = local_day tz t0))
          \<and> (i \<in> set (FWD_IDX parse tz DATES_ISO TODAY_ISO) \<longleftrightarrow>
               (\<exists>t. parse (DATES_ISO ! i) = Some t \<and> local_day tz t0 < local_day tz t))
          \<and> (parse (DATES_ISO ! i) = None \<longrightarrow>
               i \<notin> set (PAST_IDX parse tz DATES_ISO TODAY_ISO) \<union> set (NOW_IDX parse tz DATES_ISO TODAY_ISO)
                     \<union> set (FWD_IDX parse tz DATES_ISO TODAY_ISO)))
       \<and> set (PAST_IDX parse tz DATES_ISO TODAY_ISO) \<union> set (NOW_IDX parse tz DATES_ISO TODAY_ISO)
           \<union> set (FWD_IDX parse tz DATES_ISO TODAY_ISO)
           = {i. i < length DATES_ISO \<and> parse (DATES_ISO ! i) \<noteq> None}
       \<and> ((\<forall>d \<in> set DATES_ISO. parse d \<noteq> None) \<longrightarrow>
            set (PAST_IDX parse tz DATES_ISO TODAY_ISO) \<union> set (NOW_IDX parse tz DATES_ISO TODAY_ISO)
              \<union> set (FWD_IDX parse tz DATES_ISO TODAY_ISO) = {0..<length DATES_ISO})
       \<and> set (PAST_IDX parse tz DATES_ISO TODAY_ISO) \<inter> set (NOW_IDX parse tz DATES_ISO TODAY_ISO) = {}
       \<and> set (PAST_IDX parse tz DATES_ISO TODAY_ISO) \<inter> set (FWD_IDX parse tz DATES_ISO TODAY_ISO) = {}
       \<and> set (NOW_IDX parse tz DATES_ISO TODAY_ISO) \<inter> set (FWD_IDX parse tz DATES_ISO TODAY_ISO) = {}
       \<and> sorted_wrt (<) (PAST_IDX parse tz DATES_ISO TODAY_ISO)
       \<and> sorted_wrt (<) (NOW_IDX parse tz DATES_ISO TODAY_ISO)
       \<and> sorted_wrt (<) (FWD_IDX parse tz DATES_ISO TODAY_ISO)"
proof -
  let ?P = "set (PAST_IDX parse tz DATES_ISO TODAY_ISO)"
  let ?N = "set (NOW_IDX parse tz DATES_ISO TODAY_ISO)"
  let ?F = "set (FWD_IDX parse tz DATES_ISO TODAY_ISO)"
  have p: "i \<in> ?P \<longleftrightarrow> i < length DATES_ISO
      \<and> (\<exists>t. parse (DATES_ISO ! i) = Some t \<and> local_day tz t < local_day tz t0)" for i
    by (simp add: in_PAST assms)
  have n: "i \<in> ?N \<longleftrightarrow> i < length DATES_ISO
      \<and> (\<exists>t. parse (DATES_ISO ! i) = Some t \<and> local_day tz t = local_day tz t0)" for i
    by (simp add: in_NOW assms)
  have f: "i \<in> ?F \<longleftrightarrow> i < length DATES_ISO
      \<and> (\<exists>t. parse (DATES_ISO ! i) = Some t \<and> local_day tz t0 < local_day tz t)" for i
    by (simp add: in_FWD assms)
  have mem: "\<forall>i < length DATES_ISO.
            (i \<in> ?P \<longleftrightarrow> (\<exists>t. parse (DATES_ISO ! i) = Some t \<and> local_day tz t < local_day tz t0))
          \<and> (i \<in> ?N \<longleftrightarrow> (\<exists>t. parse (DATES_ISO ! i) = Some t \<and> local_day tz t = local_day tz t0))
          \<and> (i \<in> ?F \<longleftrightarrow> (\<exists>t. parse (DATES_ISO ! i) = Some t \<and> local_day tz t0 < local_day tz t))
          \<and> (parse (DATES_ISO ! i) = None \<longrightarrow> i \<notin> ?P \<union> ?N \<union> ?F)"
    by (simp add: p n f)
  have cover: "?P \<union> ?N \<union> ?F = {i. i < length DATES_ISO \<and> parse (DATES_ISO ! i) \<noteq> None}"
  proof (rule set_eqI)
    fix i
    show "i \<in> ?P \<union> ?N \<union> ?F \<longleftrightarrow> i \<in> {i. i < length DATES_ISO \<and> parse (DATES_ISO ! i) \<noteq> None}"
    proof (cases "parse (DATES_ISO ! i)")
      case None
      then show ?thesis
        by (simp add: p n f)
    next
      case (Some t)
      have "local_day tz t < local_day tz t0 \<or> local_day tz t = local_day tz t0
          \<or> local_day tz t0 < local_day tz t"
        by linarith
      then show ?thesis
        by (auto simp: p n f Some)
    qed
  qed
  have all: "?P \<union> ?N \<union> ?F = {0..<length DATES_ISO}" if "\<forall>d \<in> set DATES_ISO. parse d \<noteq> None"
  proof -
    from that have "{i. i < length DATES_ISO \<and> parse (DATES_ISO ! i) \<noteq> None} = {0..<length DATES_ISO}"
      by auto
    with cover show ?thesis
      by simp
  qed
  have d1: "?P \<inter> ?N = {}"
    by (auto simp: p n)
  have d2: "?P \<inter> ?F = {}"
    by (auto simp: p f)
  have d3: "?N \<inter> ?F = {}"
    by (auto simp: n f)
  have s: "sorted_wrt (<) (PAST_IDX parse tz DATES_ISO TODAY_ISO)"
      "sorted_wrt (<) (NOW_IDX parse tz DATES_ISO TODAY_ISO)"
      "sorted_wrt (<) (FWD_IDX parse tz DATES_ISO TODAY_ISO)"
    by (simp_all add: PAST_IDX_def NOW_IDX_def FWD_IDX_def idx_filter_sorted)
  show ?thesis
    using mem cover all d1 d2 d3 s by (intro conjI impI)
qed

lemma parse_ex_values:
  "parse_ex ''2024-01-01'' = Some 1704067200000" "parse_ex ''2024-01-02'' = Some 1704153600000"
  "parse_ex ''2024-01-03'' = Some 1704240000000" "parse_ex ''n/a'' = None"
  by (simp_all add: parse_ex_def)

lemma toD_ex:
  "toD parse_ex tz_ex ''2024-01-01'' = Some 1704042000000"
  "toD parse_ex tz_ex ''2024-01-02'' = Some 1704128400000"
  "toD parse_ex tz_ex ''2024-01-03'' = Some 1704214800000"
  "toD parse_ex tz_ex ''n/a'' = None"
  by (simp_all add: toD_def parse_ex_values setHours0_def local_day_def msPerDay_def tz_ex_def)

lemma PAST_dates3: "PAST_IDX parse_ex tz_ex dates3 ''2024-01-02'' = [0]"
  by (simp add: PAST_IDX_def indexed_def dates3_def toD_ex date_lt_def upt_rec)

lemma NOW_dates3: "NOW_IDX parse_ex tz_ex dates3 ''2024-01-02'' = [1]"
  by (simp add: NOW_IDX_def indexed_def dates3_def toD_ex date_eq_def upt_rec)

lemma FWD_dates3: "FWD_IDX parse_ex tz_ex dates3 ''2024-01-02'' = [2]"
  by (simp add: FWD_IDX_def indexed_def dates3_def toD_ex date_lt_def upt_rec)

text \<open>
  The dates 2024-01-01, 2024-01-02 and 2024-01-03 with the reference date 2024-01-02, in
  the time zone UTC+7: the partition is \<open>[0]\<close>, \<open>[1]\<close>, \<open>[2]\<close>.
\<close>

theorem partition_of_valid_dates_witness:
  "parse_ex ''2024-01-02'' = Some 1704153600000
   \<and> map parse_ex dates3 = [Some 1704067200000, Some 1704153600000, Some 1704240000000]
   \<and> map (local_day tz_ex) [1704067200000, 1704153600000, 1704240000000] = [19723, 19724, 19725]
   \<and> PAST_IDX parse_ex tz_ex dates3 ''2024-01-02'' = [0]
   \<and> NOW_IDX parse_ex tz_ex dates3 ''2024-01-02'' = [1]
   \<and> FWD_IDX parse_ex tz_ex dates3 ''2024-01-02'' = [2]
   \<and> set [0] \<union> set [1] \<union> set [2] = {0..<length dates3}"
proof -
  have h: "parse_ex ''2024-01-02'' = Some 1704153600000"
    by (simp add: parse_ex_values)
  have v: "\<forall>d \<in> set dates3. parse_ex d \<noteq> None"
    by (simp add: dates3_def parse_ex_values)
  from partition_of_valid_dates[where parse = parse_ex and TODAY_ISO = "''2024-01-02''"
      and ?t0.0 = 1704153600000 and DATES_ISO = dates3 and tz = tz_ex, OF h] v
  have "set (PAST_IDX parse_ex tz_ex dates3 ''2024-01-02'') \<union> set (NOW_IDX parse_ex tz_ex dates3 ''2024-01-02'')
      \<union> set (FWD_IDX parse_ex tz_ex dates3 ''2024-01-02'') = {0..<length dates3}"
    by blast
  then have "set [0] \<union> set [1] \<union> set [2] = {0..<length dates3}"
    by (simp only: PAST_dates3 NOW_dates3 FWD_dates3)
  moreover have "map parse_ex dates3 = [Some 1704067200000, Some 1704153600000, Some 1704240000000]"
    by (simp add: dates3_def parse_ex_values)
  moreover have "map (local_day tz_ex) [1704067200000, 1704153600000, 1704240000000] = [19723, 19724, 19725]"
    by (simp add: local_day_def tz_ex_def msPerDay_def)
  ultimately show ?thesis
    using h PAST_dates3 NOW_dates3 FWD_dates3 by (intro conjI)
qed

text \<open>
  Claim C2 as stated fails on a date that does not parse: every comparison with an
  Invalid Date is false, so its index is in none of the three lists.
\<close>

theorem partition_invalid_date_counterexample:
  "set (PAST_IDX parse_ex tz_ex [''n/a''] ''2024-01-02'') \<union> set (NOW_IDX parse_ex tz_ex [''n/a''] ''2024-01-02'')
     \<union> set (FWD_IDX parse_ex tz_ex [''n/a''] ''2024-01-02'') \<noteq> {0..<length [''n/a'']}"
  by (simp add: PAST_IDX_def NOW_IDX_def FWD_IDX_def indexed_def toD_ex date_lt_def date_eq_def)

section \<open>Ingestion: properties\<close>

lemma trim_date: "trim ''2024-01-01'' = ''2024-01-01''" "trim ''r0c0'' = ''r0c0''"
  by (simp_all add: trim_def is_ws_def)

lemma lower_keys:
  "toLowerCase ''date'' = ''date''" "toLowerCase ''lat'' = ''lat''" "toLowerCase ''lon'' = ''lon''"
  "toLowerCase ''value'' = ''value''" "toLowerCase ''cell_id'' = ''cell_id''"
  by (simp_all add: toLowerCase_def lower_char_def)

lemma detect_point: "detect_schema [''date'', ''lat'', ''lon'', ''value''] = PointSchema"
  by (simp add: detect_schema_def)

lemma detect_cell: "detect_schema [''cell_id'', ''date'', ''value''] = CellSchema"
  by (simp add: detect_schema_def)

section \<open>Ingestion: the date index and the point branch\<close>

lemma on_data_dates:
  assumes "on_data cfg NROWS rw st = Inr st'"
  shows "schema st' = Some (case schema st of None \<Rightarrow> detect_schema (map toLowerCase (r_keys rw)) | Some s \<Rightarrow> s)
       \<and> dateSet st' =
           (if (case schema st of None \<Rightarrow> detect_schema (map toLowerCase (r_keys rw)) | Some s \<Rightarrow> s) = UnknownSchema
               \<or> row_date rw = []
            then dateSet st else set_add (row_date rw) (dateSet st))"
  using assms
  by (auto simp: on_data_def row_date_def Let_def split: if_splits jsnum.splits option.splits)

lemma set_add_props:
  "set (set_add d ds) = insert d (set ds)" "distinct ds \<Longrightarrow> distinct (set_add d ds)"
  by (auto simp: set_add_def)

lemma foldE_on_data_dates:
  assumes "foldE (on_data cfg NROWS) rows st = Inr st'" and "schema st = Some sch"
    and "distinct (dateSet st)"
  shows "distinct (dateSet st')
       \<and> set (dateSet st') = set (dateSet st) \<union>
            (if sch = UnknownSchema then {} else {d. d \<noteq> [] \<and> (\<exists>rw \<in> set rows. row_date rw = d)})"
  using assms
proof (induction rows arbitrary: st)
  case Nil
  then show ?case by simp
next
  case (Cons rw rows)
  from Cons.prems(1) obtain st1 where st1: "on_data cfg NROWS rw st = Inr st1"
    and rest: "foldE (on_data cfg NROWS) rows st1 = Inr st'"
    by (auto split: sum.splits)
  from on_data_dates[OF st1] Cons.prems(2) have sch1: "schema st1 = Some sch"
    and ds1: "dateSet st1 = (if sch = UnknownSchema \<or> row_date rw = [] then dateSet st
                             else set_add (row_date rw) (dateSet st))"
    by simp_all
  have d1: "distinct (dateSet st1)"
    using Cons.prems(3) by (simp add: ds1 set_add_props)
  from Cons.IH[OF rest sch1 d1] have "distinct (dateSet st')"
    and "set (dateSet st') = set (dateSet st1) \<union>
            (if sch = UnknownSchema then {} else {d. d \<noteq> [] \<and> (\<exists>rw \<in> set rows. row_date rw = d)})"
    by simp_all
  then show ?case
    by (auto simp: ds1 set_add_props)
qed

text \<open>
  Claim C5, amended. When ingestion completes, the date index is sorted and without
  duplicates, and its dates are exactly the non-empty trimmed date strings of all the
  records read under a cell or point schema, whether or not the record is then dropped
  for its value, its coordinates or its cell id: the handler adds the date to the set
  before it tests anything else. Under an unknown schema the index is empty.
\<close>

theorem date_index_of_read_rows:
  assumes "loadCsv cfg CELLS NROWS (Some rows) = Inr res"
  shows "sorted (datesISO res) \<and> distinct (datesISO res)
       \<and> set (datesISO res) =
           (if rows = [] \<or> detect_schema (map toLowerCase (r_keys (hd rows))) = UnknownSchema then {}
            else {d. d \<noteq> [] \<and> (\<exists>rw \<in> set rows. row_date rw = d)})"
proof -
  from assms obtain st where st: "foldE (on_data cfg NROWS) rows (init_state CELLS) = Inr st"
    and res: "datesISO res = sort (dateSet st)"
    by (auto simp: loadCsv_def split: sum.splits)
  have "distinct (dateSet st) \<and> set (dateSet st) =
           (if rows = [] \<or> detect_schema (map toLowerCase (r_keys (hd rows))) = UnknownSchema then {}
            else {d. d \<noteq> [] \<and> (\<exists>rw \<in> set rows. row_date rw = d)})"
  proof (cases rows)
    case Nil
    with st show ?thesis
      by (auto simp: init_state_def)
  next
    case (Cons rw rest)
    from st Cons obtain st1 where st1: "on_data cfg NROWS rw (init_state CELLS) = Inr st1"
      and r: "foldE (on_data cfg NROWS) rest st1 = Inr st"
      by (auto split: sum.splits)
    let ?sch = "detect_schema (map toLowerCase (r_keys rw))"
    from on_data_dates[OF st1] have sch1: "schema st1 = Some ?sch"
      and ds1: "dateSet st1 = (if ?sch = UnknownSchema \<or> row_date rw = [] then [] else [row_date rw])"
      by (simp_all add: init_state_def set_add_def)
    have d1: "distinct (dateSet st1)"
      by (simp add: ds1)
    from foldE_on_data_dates[OF r sch1 d1] show ?thesis
      by (auto simp: Cons ds1)
  qed
  then show ?thesis
    by (simp add: res)
qed


lemma trim_dates: "trim ''2024-01-02'' = ''2024-01-02''"
  by (simp add: trim_def is_ws_def)

lemma load_reversed:
  "\<exists>res. loadCsv cfg0 CELLS0 NROWS0
      (Some [cell_row ''r0c0'' ''2024-01-02'' (Fin (4 / 5)), cell_row ''r0c0'' ''2024-01-01'' (Fin (1 / 2))]) = Inr res
     \<and> datesISO res = [''2024-01-01'', ''2024-01-02'']"
  unfolding loadCsv_def init_state_CELLS0
  by (simp add: on_data_def cell_row_def lower_keys detect_cell trim_date trim_dates set_add_def Let_def)

theorem date_index_of_read_rows_witness:
  "\<exists>res. loadCsv cfg0 CELLS0 NROWS0
      (Some [cell_row ''r0c0'' ''2024-01-02'' (Fin (4 / 5)), cell_row ''r0c0'' ''2024-01-01'' (Fin (1 / 2))]) = Inr res
     \<and> datesISO res = [''2024-01-01'', ''2024-01-02'']
     \<and> sorted (datesISO res) \<and> distinct (datesISO res)"
proof -
  from load_reversed obtain res where h: "loadCsv cfg0 CELLS0 NROWS0
      (Some [cell_row ''r0c0'' ''2024-01-02'' (Fin (4 / 5)), cell_row ''r0c0'' ''2024-01-01'' (Fin (1 / 2))]) = Inr res"
    and d: "datesISO res = [''2024-01-01'', ''2024-01-02'']"
    by blast
  from date_index_of_read_rows[OF h] have "sorted (datesISO res) \<and> distinct (datesISO res)"
    by blast
  with h d show ?thesis
    by blast
qed

text \<open>
  Claim C5 as stated fails on a record with a date and a value that is not finite: the
  record is dropped, and its date, which no other record carries, is in the index.
\<close>

theorem date_of_dropped_row_counterexample:
  "map_sum (\<lambda>e. e) datesISO
     (loadCsv cfg0 CELLS0 NROWS0
        (Some [cell_row ''r0c0'' ''2024-01-01'' (Fin (1 / 2)), cell_row ''r0c0'' ''2024-01-02'' NaN]))
     = Inr [''2024-01-01'', ''2024-01-02'']"
  unfolding loadCsv_def init_state_CELLS0
  by (simp add: on_data_def cell_row_def lower_keys detect_cell trim_date trim_dates set_add_def Let_def)

text \<open>
  Claim C4 at a point on the eastern edge of the bounding box, whose column index 2 is
  outside the two columns of the grid: the id \<open>r0c2\<close> is not a key of the cell map and
  the handler throws, where the claim has the record dropped and ingestion going on.
\<close>

theorem point_on_east_edge_throws:
  "binPointToCell cfg0 NROWS0 0 2 = Some ''r0c2''
   \<and> map id' CELLS0 = [''r0c0'', ''r0c1'', ''r1c0'', ''r1c1'']
   \<and> loadCsv cfg0 CELLS0 NROWS0 (Some [edge_row]) = Inl TypeError"
proof -
  have b: "binPointToCell cfg0 NROWS0 0 2 = Some ''r0c2''"
    by (simp add: binPointToCell_def cfg0_sel DLON_cfg0 DLAT_cfg0 js_div_def show_int_def
        show_nat_0 show_nat_2 NROWS0)
  have l: "loadCsv cfg0 CELLS0 NROWS0 (Some [edge_row]) = Inl TypeError"
    unfolding loadCsv_def init_state_CELLS0
    by (simp add: on_data_def edge_row_def lower_keys detect_point trim_date set_add_def Let_def b)
  show ?thesis
    using b l by (simp add: CELLS0)
qed


text \<open>A point outside the bounding box is dropped before binning; only its date is kept.\<close>

lemma point_outside_bbox_dropped:
  assumes "schema st = Some PointSchema" and "row_date rw \<noteq> []"
    and "r_value rw = Fin v" and "r_lat rw = Fin lat" and "r_lon rw = Fin lon"
    and "\<not> (LAT_MIN cfg \<le> lat \<and> lat \<le> LAT_MAX cfg \<and> LON_MIN cfg \<le> lon \<and> lon \<le> LON_MAX cfg)"
  shows "on_data cfg NROWS rw st = Inr (st\<lparr>schema := Some PointSchema,
           dateSet := set_add (row_date rw) (dateSet st)\<rparr>)"
  using assms by (simp add: on_data_def binPointToCell_def row_date_def Let_def)


section \<open>Ingestion: merging observations\<close>

lemma foldE_snoc:
  "foldE f (xs @ [x]) s = (case foldE f xs s of Inl e \<Rightarrow> Inl e | Inr s' \<Rightarrow> f x s')"
  by (induction xs arbitrary: s) (auto split: sum.splits)

lemma foldE_on_data_schema:
  assumes "foldE (on_data cfg NROWS) rows st = Inr st'" and "schema st = Some sch"
  shows "schema st' = Some sch"
  using assms
proof (induction rows arbitrary: st)
  case Nil
  then show ?case by simp
next
  case (Cons rw rows)
  from Cons.prems(1) obtain st1 where st1: "on_data cfg NROWS rw st = Inr st1"
    and rest: "foldE (on_data cfg NROWS) rows st1 = Inr st'"
    by (auto split: sum.splits)
  from on_data_dates[OF st1] Cons.prems(2) have "schema st1 = Some sch"
    by simp
  from Cons.IH[OF rest this] show ?case .
qed

text \<open>The handler's state after a non-empty stream, and ingestion of one more record.\<close>

lemma loadCsv_snoc:
  assumes "loadCsv cfg CELLS NROWS (Some rows) = Inr res" and "rows \<noteq> []"
  shows "\<exists>st. res_gridMap res = Some (gridMap st)
           \<and> schema st = Some (detect_schema (map toLowerCase (r_keys (hd rows))))
           \<and> loadCsv cfg CELLS NROWS (Some (rows @ [rw])) =
               (case on_data cfg NROWS rw st of
                  Inl e \<Rightarrow> Inl e
                | Inr st' \<Rightarrow> Inr \<lparr> res_gridMap = Some (gridMap st'), datesISO = sort (dateSet st') \<rparr>)"
proof -
  from assms(1) obtain st where st: "foldE (on_data cfg NROWS) rows (init_state CELLS) = Inr st"
    and res: "res_gridMap res = Some (gridMap st)"
    by (auto simp: loadCsv_def split: sum.splits)
  from assms(2) obtain r0 rest where rows: "rows = r0 # rest"
    by (cases rows) auto
  from st rows obtain st1 where st1: "on_data cfg NROWS r0 (init_state CELLS) = Inr st1"
    and r: "foldE (on_data cfg NROWS) rest st1 = Inr st"
    by (auto split: sum.splits)
  from on_data_dates[OF st1] have "schema st1 = Some (detect_schema (map toLowerCase (r_keys r0)))"
    by (simp add: init_state_def)
  from foldE_on_data_schema[OF r this] have sch: "schema st = Some (detect_schema (map toLowerCase (r_keys (hd rows))))"
    by (simp add: rows)
  have "loadCsv cfg CELLS NROWS (Some (rows @ [rw])) =
               (case on_data cfg NROWS rw st of
                  Inl e \<Rightarrow> Inl e
                | Inr st' \<Rightarrow> Inr \<lparr> res_gridMap = Some (gridMap st'), datesISO = sort (dateSet st') \<rparr>)"
    by (simp add: loadCsv_def foldE_snoc st)
  with res sch show ?thesis
    by blast
qed

lemma on_data_point_merge:
  assumes "schema st = Some PointSchema"
    and "row_date rw = d" and "d \<noteq> []"
    and "r_value rw = Fin v" and "r_lat rw = Fin lat" and "r_lon rw = Fin lon"
    and "binPointToCell cfg NROWS lat lon = Some cid"
    and "gridMap st cid = Some per" and "per d = Some old"
  shows "\<exists>st'. on_data cfg NROWS rw st = Inr st'
           \<and> gridMap st' = (gridMap st)(cid \<mapsto> per(d \<mapsto> js_quot (js_add old (Fin v)) (Fin 2)))"
  using assms by (simp add: on_data_def row_date_def Let_def)

lemma on_data_cell_write:
  assumes "schema st = Some CellSchema"
    and "row_date rw = d" and "d \<noteq> []"
    and "r_value rw = Fin v"
    and "trim (case r_cell_id rw of None \<Rightarrow> [] | Some s \<Rightarrow> s) = cid"
    and "gridMap st cid = Some per"
  shows "\<exists>st'. on_data cfg NROWS rw st = Inr st'
           \<and> gridMap st' = (gridMap st)(cid \<mapsto> per(d \<mapsto> Fin v))"
  using assms by (simp add: on_data_def row_date_def Let_def)

text \<open>
  Claim C8. Let a point-schema stream be ingested and leave the value \<open>old\<close> stored for a
  cell and a date. When the stream goes on with one more accepted point record of value
  \<open>v\<close> that lands in that cell on that date, ingestion returns the same store with
  \<open>(old + v) / 2\<close> (the sum and the quotient of doubles) for that cell and date: a
  running average, not a sum.
\<close>

theorem point_merge_running_average:
  assumes "loadCsv cfg CELLS NROWS (Some rows) = Inr res" and "rows \<noteq> []"
    and "detect_schema (map toLowerCase (r_keys (hd rows))) = PointSchema"
    and "res_gridMap res = Some gm" and "gm cid = Some per" and "per d = Some old"
    and "row_date rw = d" and "d \<noteq> []"
    and "r_value rw = Fin v" and "r_lat rw = Fin lat" and "r_lon rw = Fin lon"
    and "binPointToCell cfg NROWS lat lon = Some cid"
  shows "\<exists>res'. loadCsv cfg CELLS NROWS (Some (rows @ [rw])) = Inr res'
           \<and> res_gridMap res' = Some (gm(cid \<mapsto> per(d \<mapsto> js_quot (js_add old (Fin v)) (Fin 2))))"
proof -
  from loadCsv_snoc[OF assms(1,2), of rw] obtain st where g: "res_gridMap res = Some (gridMap st)"
    and sch: "schema st = Some (detect_schema (map toLowerCase (r_keys (hd rows))))"
    and l: "loadCsv cfg CELLS NROWS (Some (rows @ [rw])) =
               (case on_data cfg NROWS rw st of
                  Inl e \<Rightarrow> Inl e
                | Inr st' \<Rightarrow> Inr \<lparr> res_gridMap = Some (gridMap st'), datesISO = sort (dateSet st') \<rparr>)"
    by blast
  from g assms(4) have gm: "gridMap st = gm"
    by simp
  from sch assms(3) have "schema st = Some PointSchema"
    by simp
  from on_data_point_merge[OF this assms(7,8,9,10,11,12), of per old] assms(5,6) gm
  obtain st' where "on_data cfg NROWS rw st = Inr st'"
    and "gridMap st' = gm(cid \<mapsto> per(d \<mapsto> js_quot (js_add old (Fin v)) (Fin 2)))"
    by auto
  with l show ?thesis
    by simp
qed

lemma trim_pt_date: "row_date (pt_row ''2024-01-01'' v) = ''2024-01-01''"
  by (simp add: row_date_def pt_row_def trim_date)

lemma load_first_point:
  "loadCsv cfg0 CELLS0 NROWS0 (Some [pt_row ''2024-01-01'' 1]) =
     Inr \<lparr> res_gridMap = Some gm_pt1, datesISO = [''2024-01-01''] \<rparr>"
  unfolding loadCsv_def gm_pt1_def init_state_CELLS0
  by (simp add: on_data_def pt_row_def lower_keys detect_point trim_date NROWS0 bin_example
      set_add_def Let_def)

lemma merge_1_2: "js_quot (js_add (Fin 1) (Fin 2)) (Fin 2) = Fin (3 / 2)"
  by (simp add: fl_examples)

text \<open>The values 1.0 then 2.0 at one cell and date are stored as 1.5.\<close>

theorem point_merge_running_average_witness:
  "loadCsv cfg0 CELLS0 NROWS0 (Some [pt_row ''2024-01-01'' 1]) =
     Inr \<lparr> res_gridMap = Some gm_pt1, datesISO = [''2024-01-01''] \<rparr>
   \<and> gm_pt1 ''r0c0'' = Some [''2024-01-01'' \<mapsto> Fin 1]
   \<and> (\<exists>res'. loadCsv cfg0 CELLS0 NROWS0 (Some [pt_row ''2024-01-01'' 1, pt_row ''2024-01-01'' 2]) = Inr res'
         \<and> res_gridMap res' = Some (gm_pt1(''r0c0'' \<mapsto> [''2024-01-01'' \<mapsto> Fin (3 / 2)])))"
proof -
  have g: "gm_pt1 ''r0c0'' = Some [''2024-01-01'' \<mapsto> Fin 1]"
    by (simp add: gm_pt1_def)
  have "\<exists>res'. loadCsv cfg0 CELLS0 NROWS0 (Some ([pt_row ''2024-01-01'' 1] @ [pt_row ''2024-01-01'' 2])) = Inr res'
         \<and> res_gridMap res' = Some (gm_pt1(''r0c0'' \<mapsto>
              [''2024-01-01'' \<mapsto> Fin 1](''2024-01-01'' \<mapsto> js_quot (js_add (Fin 1) (Fin 2)) (Fin 2))))"
    by (rule point_merge_running_average[OF load_first_point, where lat = 0 and lon = "1 / 2"])
      (simp_all add: pt_row_def lower_keys detect_point g trim_pt_date[unfolded pt_row_def]
        NROWS0 bin_example)
  then have "\<exists>res'. loadCsv cfg0 CELLS0 NROWS0 (Some [pt_row ''2024-01-01'' 1, pt_row ''2024-01-01'' 2]) = Inr res'
         \<and> res_gridMap res' = Some (gm_pt1(''r0c0'' \<mapsto> [''2024-01-01'' \<mapsto> Fin (3 / 2)]))"
    by (simp add: fl_examples)
  with load_first_point g show ?thesis
    by (intro conjI)
qed

text \<open>
  Claim C10. Let a cell-schema stream be ingested. When it goes on with one more accepted
  cell record of value \<open>v\<close> for a cell of the grid and a date, ingestion returns the same
  store with \<open>v\<close> for that cell and date, whatever an earlier record stored there: the
  later record overwrites the earlier one, and nothing is averaged.
\<close>

theorem cell_schema_last_write_wins:
  assumes "loadCsv cfg CELLS NROWS (Some rows) = Inr res" and "rows \<noteq> []"
    and "detect_schema (map toLowerCase (r_keys (hd rows))) = CellSchema"
    and "res_gridMap res = Some gm" and "gm cid = Some per"
    and "row_date rw = d" and "d \<noteq> []"
    and "r_value rw = Fin v"
    and "trim (case r_cell_id rw of None \<Rightarrow> [] | Some s \<Rightarrow> s) = cid"
  shows "\<exists>res'. loadCsv cfg CELLS NROWS (Some (rows @ [rw])) = Inr res'
           \<and> res_gridMap res' = Some (gm(cid \<mapsto> per(d \<mapsto> Fin v)))"
proof -
  from loadCsv_snoc[OF assms(1,2), of rw] obtain st where g: "res_gridMap res = Some (gridMap st)"
    and sch: "schema st = Some (detect_schema (map toLowerCase (r_keys (hd rows))))"
    and l: "loadCsv cfg CELLS NROWS (Some (rows @ [rw])) =
               (case on_data cfg NROWS rw st of
                  Inl e \<Rightarrow> Inl e
                | Inr st' \<Rightarrow> Inr \<lparr> res_gridMap = Some (gridMap st'), datesISO = sort (dateSet st') \<rparr>)"
    by blast
  from g assms(4) have gm: "gridMap st = gm"
    by simp
  from sch assms(3) have "schema st = Some CellSchema"
    by simp
  from on_data_cell_write[OF this assms(6,7,8,9), of per] assms(5) gm
  obtain st' where "on_data cfg NROWS rw st = Inr st'"
    and "gridMap st' = gm(cid \<mapsto> per(d \<mapsto> Fin v))"
    by auto
  with l show ?thesis
    by simp
qed

lemma load_first_cell:
  "loadCsv cfg0 CELLS0 NROWS0 (Some [cell_row ''r0c0'' ''2024-01-01'' (Fin (1 / 2))]) =
     Inr \<lparr> res_gridMap = Some gm_cell1, datesISO = [''2024-01-01''] \<rparr>"
  unfolding loadCsv_def gm_cell1_def init_state_CELLS0
  by (simp add: on_data_def cell_row_def lower_keys detect_cell trim_date set_add_def Let_def)

text \<open>The values 0.5 then 0.75 for one cell and date are stored as 0.75.\<close>

theorem cell_schema_last_write_wins_witness:
  "loadCsv cfg0 CELLS0 NROWS0 (Some [cell_row ''r0c0'' ''2024-01-01'' (Fin (1 / 2))]) =
     Inr \<lparr> res_gridMap = Some gm_cell1, datesISO = [''2024-01-01''] \<rparr>
   \<and> gm_cell1 ''r0c0'' = Some [''2024-01-01'' \<mapsto> Fin (1 / 2)]
   \<and> (\<exists>res'. loadCsv cfg0 CELLS0 NROWS0
          (Some [cell_row ''r0c0'' ''2024-01-01'' (Fin (1 / 2)), cell_row ''r0c0'' ''2024-01-01'' (Fin (3 / 4))]) = Inr res'
         \<and> res_gridMap res' = Some (gm_cell1(''r0c0'' \<mapsto> [''2024-01-01'' \<mapsto> Fin (3 / 4)])))"
proof -
  have g: "gm_cell1 ''r0c0'' = Some [''2024-01-01'' \<mapsto> Fin (1 / 2)]"
    by (simp add: gm_cell1_def)
  have "\<exists>res'. loadCsv cfg0 CELLS0 NROWS0
          (Some ([cell_row ''r0c0'' ''2024-01-01'' (Fin (1 / 2))] @ [cell_row ''r0c0'' ''2024-01-01'' (Fin (3 / 4))])) = Inr res'
         \<and> res_gridMap res' = Some (gm_cell1(''r0c0'' \<mapsto>
              [''2024-01-01'' \<mapsto> Fin (1 / 2)](''2024-01-01'' \<mapsto> Fin (3 / 4))))"
    by (rule cell_schema_last_write_wins[OF load_first_cell])
      (simp_all add: cell_row_def lower_keys detect_cell g row_date_def trim_date)
  then have "\<exists>res'. loadCsv cfg0 CELLS0 NROWS0
          (Some [cell_row ''r0c0'' ''2024-01-01'' (Fin (1 / 2)), cell_row ''r0c0'' ''2024-01-01'' (Fin (3 / 4))]) = Inr res'
         \<and> res_gridMap res' = Some (gm_cell1(''r0c0'' \<mapsto> [''2024-01-01'' \<mapsto> Fin (3 / 4)]))"
    by simp
  with load_first_cell g show ?thesis
    by (intro conjI)
qed

section \<open>Feature generation: properties\<close>

lemma foldE_append:
  assumes "\<And>x s s'. x \<in> set xs \<Longrightarrow> f x s = Inr s' \<Longrightarrow> s' = s @ g x \<and> Q x"
    and "foldE f xs s = Inr s'"
  shows "s' = s @ concat (map g xs) \<and> (\<forall>x \<in> set xs. Q x)"
  using assms
proof (induction xs arbitrary: s)
  case Nil
  then show ?case by simp
next
  case (Cons x xs)
  from Cons.prems(2) obtain s1 where s1: "f x s = Inr s1" and rest: "foldE f xs s1 = Inr s'"
    by (auto split: sum.splits)
  from Cons.prems(1)[OF _ s1] have a: "s1 = s @ g x" and q: "Q x"
    by simp_all
  have "s' = s1 @ concat (map g xs) \<and> (\<forall>x \<in> set xs. Q x)"
    by (rule Cons.IH[OF _ rest]) (simp add: Cons.prems(1))
  with a q show ?case by simp
qed

lemma feature_step_Inr:
  assumes "feature_step cfg DATES_ISO (Some gm) metric stride minValue ti c feats = Inr feats'"
  shows "feats' = feats @ (if kept DATES_ISO gm metric stride minValue ti c
                           then [feature_of cfg DATES_ISO gm metric ti c] else [])
       \<and> (stride_ok stride c \<longrightarrow> gm (id' c) \<noteq> None)"
proof (cases "stride_ok stride c")
  case False
  with assms show ?thesis
    by (auto simp: feature_step_def stride_ok_def kept_def)
next
  case True
  have "gm (id' c) \<noteq> None"
  proof
    assume "gm (id' c) = None"
    with assms True show False
      by (auto simp: feature_step_def stride_ok_def Let_def split: if_splits)
  qed
  then obtain per where per: "gm (id' c) = Some per"
    by blast
  show ?thesis
  proof (cases "min_ok metric minValue (cell_value DATES_ISO per metric ti)")
    case False
    with assms True per show ?thesis
      by (auto simp: feature_step_def stride_ok_def kept_def min_ok_def cell_value_def Let_def)
  next
    case mk: True
    have k: "kept DATES_ISO gm metric stride minValue ti c"
      using True mk per by (simp add: kept_def)
    from assms True per mk have
      "bindE (cellPolygon cfg c) (\<lambda>poly.
        bindE (toFixed_num (COORD_DEC cfg) (lat_c c)) (\<lambda>clat.
        bindE (toFixed_num (COORD_DEC cfg) (lon_c c)) (\<lambda>clon.
        bindE (toFixed_js 4 (cell_value DATES_ISO per metric ti)) (\<lambda>v.
           Inr (feats @ [\<lparr> coordinates = poly, time = at_index DATES_ISO ti, cell_id = id' c,
                                            f_row = row c, f_col = col c,
                                            center_lat = clat, center_lon = clon,
                                            f_value = v \<rparr>]))))) = Inr feats'"
      by (auto simp: feature_step_def stride_ok_def min_ok_def cell_value_def Let_def split: if_splits)
    then have "feats' = feats @ [feature_of cfg DATES_ISO gm metric ti c]"
      by (auto simp: bindE_def cellPolygon_def toFixed_num_def toFixed_js_def feature_of_def per Let_def
          split: sum.splits if_splits)
    with k per show ?thesis by simp
  qed
qed

lemma concat_map_if: "concat (map (\<lambda>x. if P x then [g x] else []) xs) = map g (filter P xs)"
  by (induction xs) simp_all

lemma inner_loop_Inr:
  assumes "foldE (feature_step cfg DATES_ISO (Some gm) metric stride minValue ti) CELLS feats = Inr feats'"
  shows "feats' = feats @ map (feature_of cfg DATES_ISO gm metric ti)
                            (filter (kept DATES_ISO gm metric stride minValue ti) CELLS)
       \<and> (\<forall>c \<in> set CELLS. stride_ok stride c \<longrightarrow> gm (id' c) \<noteq> None)"
  using foldE_append[where f = "feature_step cfg DATES_ISO (Some gm) metric stride minValue ti"
      and g = "\<lambda>c. if kept DATES_ISO gm metric stride minValue ti c
                           then [feature_of cfg DATES_ISO gm metric ti c] else []"
      and Q = "\<lambda>c. stride_ok stride c \<longrightarrow> gm (id' c) \<noteq> None", OF _ assms]
  by (simp add: feature_step_Inr concat_map_if)

lemma buildFeatures_Inr:
  assumes "buildFeatures cfg CELLS DATES_ISO (Some gm) idx metric stride minValue = Inr feats"
  shows "feats = concat (map (\<lambda>ti. map (feature_of cfg DATES_ISO gm metric ti)
                            (filter (kept DATES_ISO gm metric stride minValue ti) CELLS)) idx)
       \<and> (idx \<noteq> [] \<longrightarrow> (\<forall>c \<in> set CELLS. stride_ok stride c \<longrightarrow> gm (id' c) \<noteq> None))"
proof -
  have "feats = [] @ concat (map (\<lambda>ti. map (feature_of cfg DATES_ISO gm metric ti)
                            (filter (kept DATES_ISO gm metric stride minValue ti) CELLS)) idx)
       \<and> (\<forall>ti \<in> set idx. \<forall>c \<in> set CELLS. stride_ok stride c \<longrightarrow> gm (id' c) \<noteq> None)"
    by (rule foldE_append[where f = "\<lambda>ti feats. foldE (feature_step cfg DATES_ISO (Some gm) metric stride minValue ti) CELLS feats"])
      (use assms in \<open>simp_all add: inner_loop_Inr buildFeatures_def\<close>)
  then show ?thesis
    by (cases idx) auto
qed


lemma foldE_append_eq:
  assumes "\<And>x s. x \<in> set xs \<Longrightarrow> f x s = Inr (s @ g x)"
  shows "foldE f xs s = Inr (s @ concat (map g xs))"
  using assms by (induction xs arbitrary: s) simp_all

lemma feature_step_ok:
  assumes "gm (id' c) \<noteq> None" and "0 \<le> COORD_DEC cfg" and "COORD_DEC cfg \<le> 100"
  shows "feature_step cfg DATES_ISO (Some gm) metric stride minValue ti c feats =
           Inr (feats @ (if kept DATES_ISO gm metric stride minValue ti c
                         then [feature_of cfg DATES_ISO gm metric ti c] else []))"
proof -
  from assms(1) obtain per where per: "gm (id' c) = Some per"
    by blast
  have "\<exists>feats'. feature_step cfg DATES_ISO (Some gm) metric stride minValue ti c feats = Inr feats'"
    using assms(2,3) per
    by (simp add: feature_step_def Let_def bindE_def cellPolygon_def toFixed_num_def toFixed_js_def)
  then obtain feats' where
    "feature_step cfg DATES_ISO (Some gm) metric stride minValue ti c feats = Inr feats'"
    by blast
  with feature_step_Inr[OF this] show ?thesis
    by simp
qed

lemma buildFeatures_ok:
  assumes "\<forall>c \<in> set CELLS. gm (id' c) \<noteq> None" and "0 \<le> COORD_DEC cfg" and "COORD_DEC cfg \<le> 100"
  shows "buildFeatures cfg CELLS DATES_ISO (Some gm) idx metric stride minValue =
           Inr (concat (map (\<lambda>ti. map (feature_of cfg DATES_ISO gm metric ti)
                            (filter (kept DATES_ISO gm metric stride minValue ti) CELLS)) idx))"
proof -
  have inner: "foldE (feature_step cfg DATES_ISO (Some gm) metric stride minValue ti) CELLS feats =
      Inr (feats @ map (feature_of cfg DATES_ISO gm metric ti)
                            (filter (kept DATES_ISO gm metric stride minValue ti) CELLS))" for ti feats
    using foldE_append_eq[where f = "feature_step cfg DATES_ISO (Some gm) metric stride minValue ti"
        and xs = CELLS and s = feats
        and g = "\<lambda>c. if kept DATES_ISO gm metric stride minValue ti c
                           then [feature_of cfg DATES_ISO gm metric ti c] else []"]
      assms
    by (simp add: feature_step_ok concat_map_if)
  show ?thesis
    unfolding buildFeatures_def
    by (rule foldE_append_eq[where s = "[]", simplified]) (rule inner)
qed

lemma map_concat_map: "map h (concat (map (\<lambda>ti. map (g ti) (F ti)) idx)) = concat (map (\<lambda>ti. map (\<lambda>c. h (g ti c)) (F ti)) idx)"
  by (induction idx) simp_all

text \<open>
  Claim C1, amended. When \<open>buildFeatures\<close> returns, the features it emits are, in
  order, those of the pairs of a requested date index and a cell that pass the stride and
  threshold filters, and the value of each is the stored value of the cell at the date
  (0 when there is none) for a metric other than \<open>delta\<close>, and for \<open>delta\<close> that
  value minus the value at the preceding index of the whole date index (minus 0 at index
  0), a subtraction of doubles; in both cases rounded to four decimals.
\<close>

theorem emitted_value_rounded:
  assumes "buildFeatures cfg CELLS DATES_ISO (Some gm) idx metric stride minValue = Inr feats"
  shows "map (\<lambda>f. (time f, cell_id f, f_value f)) feats =
           concat (map (\<lambda>ti.
             map (\<lambda>c. (at_index DATES_ISO ti, id' c,
                        fixed_js 4 (if metric = ''delta''
                                    then js_sub (get0 (the (gm (id' c))) (at_index DATES_ISO ti))
                                           (if ti > 0 then get0 (the (gm (id' c))) (at_index DATES_ISO (ti - 1))
                                            else Fin 0)
                                    else get0 (the (gm (id' c))) (at_index DATES_ISO ti))))
               (filter (kept DATES_ISO gm metric stride minValue ti) CELLS)) idx)
       \<and> (idx \<noteq> [] \<longrightarrow> (\<forall>c \<in> set CELLS. stride_ok stride c \<longrightarrow> gm (id' c) \<noteq> None))"
  using buildFeatures_Inr[OF assms]
  by (simp add: map_concat_map feature_of_def cell_value_def Let_def)

lemma init_cells: "\<forall>c \<in> set CELLS0. ((gridMap (init_state CELLS0))(''r0c0'' \<mapsto> per)) (id' c) \<noteq> None"
  unfolding init_state_CELLS0 by (simp add: CELLS0)

lemma gm_cells:
  "\<forall>c \<in> set CELLS0. gm0 (id' c) \<noteq> None" "\<forall>c \<in> set CELLS0. gm1 (id' c) \<noteq> None"
  "\<forall>c \<in> set CELLS0. gm2 (id' c) \<noteq> None" "\<forall>c \<in> set CELLS0. gmD (id' c) \<noteq> None"
  unfolding gm0_def gm1_def gm2_def gmD_def by (rule init_cells)+

lemma gm_r0c0:
  "the (gm0 ''r0c0'') = [''2024-01-01'' \<mapsto> Fin (1 / 2), ''2024-01-02'' \<mapsto> Fin (3 / 4)]"
  "the (gmD ''r0c0'') = [''2024-01-01'' \<mapsto> Fin 10, ''2024-01-02'' \<mapsto> Fin (8497729546894705 / 2251799813685248)]"
  "the (gm1 ''r0c0'') = [''2024-01-01'' \<mapsto> Fin (1 / 1048576)]"
  "the (gm2 ''r0c0'') = [''2024-01-01'' \<mapsto> Fin (524289 / 1048576)]"
  by (simp_all add: gm0_def gmD_def gm1_def gm2_def)

lemma gm_others:
  "the (gm0 ''r0c1'') = Map.empty" "the (gm0 ''r1c0'') = Map.empty" "the (gm0 ''r1c1'') = Map.empty"
  unfolding gm0_def init_state_CELLS0 by simp_all

lemma at_index_dates2:
  "at_index dates2 0 = Some ''2024-01-01''" "at_index dates2 (Suc 0) = Some ''2024-01-02''"
  "at_index dates2 1 = Some ''2024-01-02''" "at_index [''2024-01-01''] 0 = Some ''2024-01-01''"
  by (simp_all add: at_index_def dates2_def)

lemma cells0_sel:
  "id' (CELLS0 ! 0) = ''r0c0''" "row (CELLS0 ! 0) = 0" "col (CELLS0 ! 0) = 0"
  by (simp_all add: CELLS0)

lemma kept_stride2:
  "filter (kept ds gm metric 2 None ti) CELLS0 = [CELLS0 ! 0]"
  "metric \<noteq> ''value'' \<Longrightarrow> filter (kept ds gm metric 2 mv ti) CELLS0 = [CELLS0 ! 0]"
  by (simp_all add: CELLS0 kept_def stride_ok_def min_ok_def)

lemma build_delta_example:
  "buildFeatures cfg0 CELLS0 dates2 (Some gmD) [0, 1] ''delta'' 2 None =
     Inr [feature_of cfg0 dates2 gmD ''delta'' 0 (CELLS0 ! 0), feature_of cfg0 dates2 gmD ''delta'' 1 (CELLS0 ! 0)]"
  by (simp add: buildFeatures_ok[OF gm_cells(4)] cfg0_sel kept_stride2)

lemma fixed_examples:
  "fixed 4 10 = 10" "fixed 4 (- (876266786872361 / 140737488355328)) = - (62263 / 10000)"
  "fixed 4 (1 / 1048576) = 0" "fixed 4 (524289 / 1048576) = 1 / 2" "fixed 4 (3 / 4) = 3 / 4"
  "fixed 4 (1 / 2) = 1 / 2"
  by (simp_all add: fixed_def)

text \<open>
  A cell holding the doubles 10 and 3.77375: the delta is 10 at the first date and, at the
  second, the difference \<open>-6.22625000000000028\<close> of the doubles rounded to \<open>-6.2263\<close>.
\<close>

theorem emitted_value_rounded_witness:
  "buildFeatures cfg0 CELLS0 dates2 (Some gmD) [0, 1] ''delta'' 2 None =
     Inr [feature_of cfg0 dates2 gmD ''delta'' 0 (CELLS0 ! 0), feature_of cfg0 dates2 gmD ''delta'' 1 (CELLS0 ! 0)]
   \<and> map (\<lambda>f. (time f, cell_id f, f_value f))
        [feature_of cfg0 dates2 gmD ''delta'' 0 (CELLS0 ! 0), feature_of cfg0 dates2 gmD ''delta'' 1 (CELLS0 ! 0)]
      = [(Some ''2024-01-01'', ''r0c0'', Fin 10), (Some ''2024-01-02'', ''r0c0'', Fin (- (62263 / 10000)))]"
proof -
  have "map (\<lambda>f. (time f, cell_id f, f_value f))
        [feature_of cfg0 dates2 gmD ''delta'' 0 (CELLS0 ! 0), feature_of cfg0 dates2 gmD ''delta'' 1 (CELLS0 ! 0)]
      = concat (map (\<lambda>ti.
             map (\<lambda>c. (at_index dates2 ti, id' c,
                        fixed_js 4 (if ''delta'' = ''delta''
                                    then js_sub (get0 (the (gmD (id' c))) (at_index dates2 ti))
                                           (if ti > 0 then get0 (the (gmD (id' c))) (at_index dates2 (ti - 1))
                                            else Fin 0)
                                    else get0 (the (gmD (id' c))) (at_index dates2 ti))))
               (filter (kept dates2 gmD ''delta'' 2 None ti) CELLS0)) [0, 1])"
    using emitted_value_rounded[OF build_delta_example] by (rule conjunct1)
  also have "\<dots> = [(Some ''2024-01-01'', ''r0c0'', Fin 10), (Some ''2024-01-02'', ''r0c0'', Fin (- (62263 / 10000)))]"
    by (simp add: kept_stride2 cells0_sel gm_r0c0 at_index_dates2 get0_def fl_examples fl_difference_normal
        fixed_js_def fixed_examples)
  finally show ?thesis
    using build_delta_example by simp
qed

lemma build_round_example:
  "buildFeatures cfg0 CELLS0 [''2024-01-01''] (Some gm1) [0] ''value'' 2 None =
     Inr [feature_of cfg0 [''2024-01-01''] gm1 ''value'' 0 (CELLS0 ! 0)]"
  by (simp add: buildFeatures_ok[OF gm_cells(2)] cfg0_sel kept_stride2)

text \<open>
  Claim C1 as stated fails on a stored value with more than four decimals: the stored
  value \<open>2^-20\<close> is emitted as 0.
\<close>

theorem emitted_value_unrounded_counterexample:
  "map_sum (\<lambda>e. e) (map (\<lambda>f. (time f, cell_id f, f_value f)))
     (buildFeatures cfg0 CELLS0 [''2024-01-01''] (Some gm1) [0] ''value'' 2 None)
     = Inr [(Some ''2024-01-01'', ''r0c0'', Fin 0)]
   \<and> get0 (the (gm1 ''r0c0'')) (Some ''2024-01-01'') = Fin (1 / 1048576)"
  unfolding build_round_example
  by (simp add: feature_of_def cell_value_def at_index_dates2 cells0_sel gm_r0c0 get0_def
      fixed_js_def fixed_examples Let_def)

lemma kept_threshold:
  "kept DATES_ISO gm metric stride minValue ti c \<longleftrightarrow>
     \<not> (stride > 1 \<and> (row c mod stride \<noteq> 0 \<or> col c mod stride \<noteq> 0))
     \<and> (metric = ''value'' \<longrightarrow>
          (case minValue of None \<Rightarrow> True
           | Some m \<Rightarrow> js_gt (get0 (the (gm (id' c))) (at_index DATES_ISO ti)) m))"
  by (cases minValue) (auto simp: kept_def stride_ok_def min_ok_def cell_value_def Let_def)

text \<open>
  Claim C6, amended. The features emitted are those of the cells that pass the stride test
  and, only when the metric is \<open>value\<close> and \<open>minValue\<close> is not null, whose stored value
  (0 when there is none), before it is rounded for output, is strictly greater than
  \<open>minValue\<close>; for any other metric, or a null \<open>minValue\<close>, the threshold drops nothing.
  The value an emitted feature carries is the computed value rounded to four decimals.
\<close>

theorem minValue_filter:
  assumes "buildFeatures cfg CELLS DATES_ISO (Some gm) idx metric stride minValue = Inr feats"
  shows "map (\<lambda>f. (time f, cell_id f, f_value f)) feats =
           concat (map (\<lambda>ti.
             map (\<lambda>c. (at_index DATES_ISO ti, id' c,
                        fixed_js 4 (cell_value DATES_ISO (the (gm (id' c))) metric ti)))
               (filter (\<lambda>c. \<not> (stride > 1 \<and> (row c mod stride \<noteq> 0 \<or> col c mod stride \<noteq> 0))
                     \<and> (metric = ''value'' \<longrightarrow>
                          (case minValue of None \<Rightarrow> True
                           | Some m \<Rightarrow> js_gt (get0 (the (gm (id' c))) (at_index DATES_ISO ti)) m)))
                  CELLS)) idx)"
proof -
  have "feats = concat (map (\<lambda>ti. map (feature_of cfg DATES_ISO gm metric ti)
                            (filter (kept DATES_ISO gm metric stride minValue ti) CELLS)) idx)"
    using buildFeatures_Inr[OF assms] by (rule conjunct1)
  then have "map (\<lambda>f. (time f, cell_id f, f_value f)) feats =
      concat (map (\<lambda>ti. map (\<lambda>c. (at_index DATES_ISO ti, id' c,
                                   fixed_js 4 (cell_value DATES_ISO (the (gm (id' c))) metric ti)))
                            (filter (kept DATES_ISO gm metric stride minValue ti) CELLS)) idx)"
    by (simp add: map_concat_map feature_of_def Let_def)
  also have "kept DATES_ISO gm metric stride minValue =
      (\<lambda>ti c. \<not> (stride > 1 \<and> (row c mod stride \<noteq> 0 \<or> col c mod stride \<noteq> 0))
                     \<and> (metric = ''value'' \<longrightarrow>
                          (case minValue of None \<Rightarrow> True
                           | Some m \<Rightarrow> js_gt (get0 (the (gm (id' c))) (at_index DATES_ISO ti)) m)))"
    by (intro ext) (rule kept_threshold)
  finally show ?thesis .
qed

lemma kept_value_example:
  "filter (kept dates2 gm0 ''value'' 2 (Some (Fin (5 / 8))) 0) CELLS0 = []"
  "filter (kept dates2 gm0 ''value'' 2 (Some (Fin (5 / 8))) (Suc 0)) CELLS0 = [CELLS0 ! 0]"
  by (simp_all add: CELLS0 kept_def stride_ok_def min_ok_def cell_value_def at_index_dates2 get0_def
      gm_r0c0)

lemma build_value_example:
  "buildFeatures cfg0 CELLS0 dates2 (Some gm0) [0, 1] ''value'' 2 (Some (Fin (5 / 8))) =
     Inr [feature_of cfg0 dates2 gm0 ''value'' 1 (CELLS0 ! 0)]"
  by (simp add: buildFeatures_ok[OF gm_cells(1)] cfg0_sel kept_value_example)

lemma build_delta_min_example:
  "buildFeatures cfg0 CELLS0 dates2 (Some gm0) [0, 1] ''delta'' 2 (Some (Fin 10)) =
     Inr [feature_of cfg0 dates2 gm0 ''delta'' 0 (CELLS0 ! 0), feature_of cfg0 dates2 gm0 ''delta'' 1 (CELLS0 ! 0)]"
  by (simp add: buildFeatures_ok[OF gm_cells(1)] cfg0_sel kept_stride2)

text \<open>
  With threshold 0.625 and metric \<open>value\<close>, the value 0.5 is dropped and 0.75 is kept;
  with threshold 10 and metric \<open>delta\<close>, both deltas are kept.
\<close>

theorem minValue_filter_witness:
  "buildFeatures cfg0 CELLS0 dates2 (Some gm0) [0, 1] ''value'' 2 (Some (Fin (5 / 8))) =
     Inr [feature_of cfg0 dates2 gm0 ''value'' 1 (CELLS0 ! 0)]
   \<and> map (\<lambda>f. (time f, cell_id f, f_value f)) [feature_of cfg0 dates2 gm0 ''value'' 1 (CELLS0 ! 0)]
       = [(Some ''2024-01-02'', ''r0c0'', Fin (3 / 4))]
   \<and> buildFeatures cfg0 CELLS0 dates2 (Some gm0) [0, 1] ''delta'' 2 (Some (Fin 10)) =
     Inr [feature_of cfg0 dates2 gm0 ''delta'' 0 (CELLS0 ! 0), feature_of cfg0 dates2 gm0 ''delta'' 1 (CELLS0 ! 0)]"
proof -
  have v: "map (\<lambda>f. (time f, cell_id f, f_value f)) [feature_of cfg0 dates2 gm0 ''value'' 1 (CELLS0 ! 0)]
       = [(Some ''2024-01-02'', ''r0c0'', Fin (3 / 4))]"
    by (simp add: feature_of_def cell_value_def at_index_dates2 cells0_sel gm_r0c0 get0_def
        fixed_js_def fixed_examples Let_def)
  show ?thesis
    using minValue_filter[OF build_value_example] minValue_filter[OF build_delta_min_example]
      build_value_example v build_delta_min_example
    by (intro conjI)
qed

lemma build_edge_example:
  "buildFeatures cfg0 CELLS0 [''2024-01-01''] (Some gm2) [0] ''value'' 2 (Some (Fin (1 / 2))) =
     Inr [feature_of cfg0 [''2024-01-01''] gm2 ''value'' 0 (CELLS0 ! 0)]"
proof -
  have "filter (kept [''2024-01-01''] gm2 ''value'' 2 (Some (Fin (1 / 2))) 0) CELLS0 = [CELLS0 ! 0]"
    by (simp add: CELLS0 kept_def stride_ok_def min_ok_def cell_value_def at_index_dates2 get0_def
        gm_r0c0)
  then show ?thesis
    by (simp add: buildFeatures_ok[OF gm_cells(3)] cfg0_sel)
qed

text \<open>
  Claim C6 as stated fails for the value a feature carries: the stored value
  \<open>0.5 + 2^-20\<close> exceeds the threshold 0.5, and its feature is emitted with the value 0.5,
  which is not strictly greater than the threshold.
\<close>

theorem minValue_emitted_value_counterexample:
  "map_sum (\<lambda>e. e) (map (\<lambda>f. (cell_id f, f_value f)))
     (buildFeatures cfg0 CELLS0 [''2024-01-01''] (Some gm2) [0] ''value'' 2 (Some (Fin (1 / 2))))
     = Inr [(''r0c0'', Fin (1 / 2))]
   \<and> \<not> js_gt (Fin (1 / 2)) (Fin (1 / 2))"
  unfolding build_edge_example
  by (simp add: feature_of_def cell_value_def at_index_dates2 cells0_sel gm_r0c0 get0_def
      fixed_js_def fixed_examples Let_def)

lemma stride_ok_mod:
  "1 \<le> k \<Longrightarrow> stride_ok k c \<longleftrightarrow> row c mod k = 0 \<and> col c mod k = 0"
  by (cases "k = 1") (auto simp: stride_ok_def)

lemma in_concat_map_filter:
  "f \<in> set (concat (map (\<lambda>ti. map (g ti) (filter (P ti) xs)) idx)) \<Longrightarrow> \<exists>ti c. f = g ti c \<and> P ti c"
  by (induction idx) auto

text \<open>
  Claim C7, amended. For a stride \<open>k \<ge> 1\<close>, every feature emitted has a row and a column
  divisible by \<open>k\<close>, and the features emitted for each date are exactly those of the cells
  whose row and column are divisible by \<open>k\<close> and that pass the threshold filter, in grid
  order: the stride omits no such cell. For \<open>k = 1\<close> they are those of every cell that
  passes the threshold filter. When the threshold filter does not apply (a null
  \<open>minValue\<close>, or a metric other than \<open>value\<close>), they are those of all the cells whose
  row and column are divisible by \<open>k\<close>, and of every cell for \<open>k = 1\<close>.
\<close>

theorem stride_decimation:
  assumes "buildFeatures cfg CELLS DATES_ISO (Some gm) idx metric k minValue = Inr feats"
    and "1 \<le> k"
  shows "(\<forall>f \<in> set feats. f_row f mod k = 0 \<and> f_col f mod k = 0)
       \<and> map (\<lambda>f. (time f, cell_id f, f_row f, f_col f)) feats =
            concat (map (\<lambda>ti. map (\<lambda>c. (at_index DATES_ISO ti, id' c, row c, col c))
               (filter (\<lambda>c. row c mod k = 0 \<and> col c mod k = 0
                          \<and> min_ok metric minValue (cell_value DATES_ISO (the (gm (id' c))) metric ti))
                  CELLS)) idx)
       \<and> (k = 1 \<longrightarrow>
            map (\<lambda>f. (time f, cell_id f, f_row f, f_col f)) feats =
              concat (map (\<lambda>ti. map (\<lambda>c. (at_index DATES_ISO ti, id' c, row c, col c))
                 (filter (\<lambda>c. min_ok metric minValue (cell_value DATES_ISO (the (gm (id' c))) metric ti))
                    CELLS)) idx))
       \<and> (minValue = None \<or> metric \<noteq> ''value'' \<longrightarrow>
            map (\<lambda>f. (time f, cell_id f, f_row f, f_col f)) feats =
              concat (map (\<lambda>ti. map (\<lambda>c. (at_index DATES_ISO ti, id' c, row c, col c))
                                 (filter (\<lambda>c. row c mod k = 0 \<and> col c mod k = 0) CELLS)) idx))
       \<and> (k = 1 \<and> (minValue = None \<or> metric \<noteq> ''value'') \<longrightarrow>
            map (\<lambda>f. (time f, cell_id f, f_row f, f_col f)) feats =
              concat (map (\<lambda>ti. map (\<lambda>c. (at_index DATES_ISO ti, id' c, row c, col c)) CELLS) idx))"
proof -
  have eq: "feats = concat (map (\<lambda>ti. map (feature_of cfg DATES_ISO gm metric ti)
                            (filter (kept DATES_ISO gm metric k minValue ti) CELLS)) idx)"
    using buildFeatures_Inr[OF assms(1)] by (rule conjunct1)
  have a: "\<forall>f \<in> set feats. f_row f mod k = 0 \<and> f_col f mod k = 0"
  proof
    fix f assume "f \<in> set feats"
    then have "\<exists>ti c. f = feature_of cfg DATES_ISO gm metric ti c
        \<and> kept DATES_ISO gm metric k minValue ti c"
      unfolding eq by (rule in_concat_map_filter)
    then obtain ti c where f: "f = feature_of cfg DATES_ISO gm metric ti c"
      and kp: "kept DATES_ISO gm metric k minValue ti c"
      by blast
    from kp have "stride_ok k c"
      by (simp add: kept_def)
    then have "row c mod k = 0 \<and> col c mod k = 0"
      using stride_ok_mod[OF assms(2)] by simp
    then show "f_row f mod k = 0 \<and> f_col f mod k = 0"
      by (simp add: f feature_of_def Let_def)
  qed
  have proj: "map (\<lambda>f. (time f, cell_id f, f_row f, f_col f)) feats =
      concat (map (\<lambda>ti. map (\<lambda>c. (at_index DATES_ISO ti, id' c, row c, col c))
                            (filter (kept DATES_ISO gm metric k minValue ti) CELLS)) idx)"
    unfolding eq by (simp add: map_concat_map feature_of_def Let_def)
  have full: "kept DATES_ISO gm metric k minValue =
      (\<lambda>ti c. row c mod k = 0 \<and> col c mod k = 0
                 \<and> min_ok metric minValue (cell_value DATES_ISO (the (gm (id' c))) metric ti))"
  proof (intro ext)
    fix ti :: nat and c :: cell
    show "kept DATES_ISO gm metric k minValue ti c = (row c mod k = 0 \<and> col c mod k = 0
        \<and> min_ok metric minValue (cell_value DATES_ISO (the (gm (id' c))) metric ti))"
      using stride_ok_mod[OF assms(2), of c] by (simp add: kept_def)
  qed
  have b0: "map (\<lambda>f. (time f, cell_id f, f_row f, f_col f)) feats =
            concat (map (\<lambda>ti. map (\<lambda>c. (at_index DATES_ISO ti, id' c, row c, col c))
               (filter (\<lambda>c. row c mod k = 0 \<and> col c mod k = 0
                          \<and> min_ok metric minValue (cell_value DATES_ISO (the (gm (id' c))) metric ti))
                  CELLS)) idx)"
    using proj unfolding full .
  have c0: "map (\<lambda>f. (time f, cell_id f, f_row f, f_col f)) feats =
              concat (map (\<lambda>ti. map (\<lambda>c. (at_index DATES_ISO ti, id' c, row c, col c))
                 (filter (\<lambda>c. min_ok metric minValue (cell_value DATES_ISO (the (gm (id' c))) metric ti))
                    CELLS)) idx)"
    if "k = 1"
    using b0 unfolding that by simp
  have off: "kept DATES_ISO gm metric k minValue = (\<lambda>ti c. row c mod k = 0 \<and> col c mod k = 0)"
    if "minValue = None \<or> metric \<noteq> ''value''"
  proof (intro ext)
    fix ti :: nat and c :: cell
    from that have "min_ok metric minValue (cell_value DATES_ISO (the (gm (id' c))) metric ti)"
      by (auto simp: min_ok_def)
    then show "kept DATES_ISO gm metric k minValue ti c = (row c mod k = 0 \<and> col c mod k = 0)"
      using stride_ok_mod[OF assms(2), of c] by (simp add: kept_def)
  qed
  have b: "map (\<lambda>f. (time f, cell_id f, f_row f, f_col f)) feats =
              concat (map (\<lambda>ti. map (\<lambda>c. (at_index DATES_ISO ti, id' c, row c, col c))
                                 (filter (\<lambda>c. row c mod k = 0 \<and> col c mod k = 0) CELLS)) idx)"
    if "minValue = None \<or> metric \<noteq> ''value''"
    using proj unfolding off[OF that] .
  have c: "map (\<lambda>f. (time f, cell_id f, f_row f, f_col f)) feats =
              concat (map (\<lambda>ti. map (\<lambda>c. (at_index DATES_ISO ti, id' c, row c, col c)) CELLS) idx)"
    if "k = 1 \<and> (minValue = None \<or> metric \<noteq> ''value'')"
  proof -
    from that have k1: "k = 1" and o: "minValue = None \<or> metric \<noteq> ''value''"
      by simp_all
    show ?thesis
      using b[OF o] unfolding k1 by simp
  qed
  show ?thesis
    using a b0 c0 b c by (intro conjI impI)
qed

lemma build_stride_example:
  "buildFeatures cfg0 CELLS0 dates2 (Some gm0) [0] ''value'' 2 None =
     Inr [feature_of cfg0 dates2 gm0 ''value'' 0 (CELLS0 ! 0)]"
  by (simp add: buildFeatures_ok[OF gm_cells(1)] cfg0_sel kept_stride2)

text \<open>With stride 2 on the grid of two rows and two columns, only \<open>r0c0\<close> is emitted.\<close>

theorem stride_decimation_witness:
  "buildFeatures cfg0 CELLS0 dates2 (Some gm0) [0] ''value'' 2 None =
     Inr [feature_of cfg0 dates2 gm0 ''value'' 0 (CELLS0 ! 0)]
   \<and> (1::nat) \<le> 2
   \<and> map (\<lambda>f. (time f, cell_id f, f_row f, f_col f)) [feature_of cfg0 dates2 gm0 ''value'' 0 (CELLS0 ! 0)]
       = [(Some ''2024-01-01'', ''r0c0'', 0, 0)]
   \<and> map (\<lambda>c. (id' c, row c, col c)) (filter (\<lambda>c. row c mod 2 = 0 \<and> col c mod 2 = 0) CELLS0)
       = [(''r0c0'', 0, 0)]"
proof -
  have h: "(1::nat) \<le> 2"
    by simp
  have v: "map (\<lambda>f. (time f, cell_id f, f_row f, f_col f)) [feature_of cfg0 dates2 gm0 ''value'' 0 (CELLS0 ! 0)]
       = [(Some ''2024-01-01'', ''r0c0'', 0, 0)]"
    by (simp add: feature_of_def at_index_dates2 cells0_sel Let_def)
  have w: "map (\<lambda>c. (id' c, row c, col c)) (filter (\<lambda>c. row c mod 2 = 0 \<and> col c mod 2 = 0) CELLS0)
       = [(''r0c0'', 0, 0)]"
    by (simp add: CELLS0)
  show ?thesis
    using stride_decimation[OF build_stride_example h] build_stride_example h v w
    by (intro conjI)
qed

lemma build_all_example:
  "buildFeatures cfg0 CELLS0 dates2 (Some gm0) [0] ''value'' 1 (Some (Fin 0)) =
     Inr [feature_of cfg0 dates2 gm0 ''value'' 0 (CELLS0 ! 0)]"
proof -
  have "filter (kept dates2 gm0 ''value'' 1 (Some (Fin 0)) 0) CELLS0 = [CELLS0 ! 0]"
    by (simp add: CELLS0 kept_def stride_ok_def min_ok_def cell_value_def at_index_dates2 get0_def
        gm_r0c0 gm_others)
  then show ?thesis
    by (simp add: buildFeatures_ok[OF gm_cells(1)] cfg0_sel)
qed

text \<open>
  Claim C7 as stated fails when the threshold applies: with stride 1, metric \<open>value\<close> and
  threshold 0, only the cell \<open>r0c0\<close> of the four cells of the grid is emitted, the others
  holding no value above the threshold.
\<close>

theorem stride_one_threshold_counterexample:
  "map_sum (\<lambda>e. e) (map cell_id)
     (buildFeatures cfg0 CELLS0 dates2 (Some gm0) [0] ''value'' 1 (Some (Fin 0)))
     = Inr [''r0c0'']
   \<and> map id' CELLS0 = [''r0c0'', ''r0c1'', ''r1c0'', ''r1c1'']"
  unfolding build_all_example
  by (simp add: feature_of_def cells0_sel Let_def) (simp add: CELLS0)

section \<open>Grid: properties\<close>

subsection \<open>The loops in closed form\<close>

lemma steps_0: "steps a d M 0 \<longleftrightarrow> \<not> a < M - EPS"
  by (simp add: steps_def)

lemma steps_Suc: "steps a d M (Suc n) \<longleftrightarrow> a < M - EPS \<and> steps (a + d) d M n"
  by (simp add: steps_def All_less_Suc2 algebra_simps)

lemma steps_unique:
  assumes "steps a d M n" and "steps a d M n'"
  shows "n = n'"
proof (rule ccontr)
  assume "n \<noteq> n'"
  then consider "n < n'" | "n' < n"
    by linarith
  then show False
  proof cases
    case 1
    with assms show False by (auto simp: steps_def)
  next
    case 2
    with assms show False by (auto simp: steps_def)
  qed
qed

lemma steps_exists:
  assumes "0 < d"
  shows "\<exists>n. steps a d M n"
proof -
  let ?x = "(M - EPS - a) / d"
  let ?n = "nat \<lceil>?x\<rceil>"
  have lt: "a + real k * d < M - EPS" if "k < ?n" for k
  proof -
    from that have "int k < \<lceil>?x\<rceil>"
      by linarith
    then have "real k < ?x"
      by (simp add: less_ceiling_iff)
    then have "real k * d < M - EPS - a"
      using assms by (simp add: pos_less_divide_eq)
    then show ?thesis
      by simp
  qed
  have "?x \<le> real ?n"
    by (metis of_nat_nat le_of_int_ceiling nat_le_iff of_int_of_nat_eq of_nat_0_le_iff order_trans
        linorder_le_cases of_int_0_le_iff nat_0_le)
  then have "M - EPS - a \<le> real ?n * d"
    using assms by (simp add: pos_divide_le_eq)
  then have "\<not> a + real ?n * d < M - EPS"
    by simp
  with lt have "steps a d M ?n"
    by (simp add: steps_def)
  then show ?thesis ..
qed

lemma map_shift:
  "g a c # map (\<lambda>k. g (a + d + real k * d) (c + 1 + k)) [0..<n] =
     map (\<lambda>k. g (a + real k * d) (c + k)) [0..<Suc n]"
  by (simp add: upt_conv_Cons map_Suc_upt[symmetric] algebra_simps del: upt_Suc)

lemma col_loop_closed:
  assumes "steps lon (DLON cfg) (LON_MAX cfg) n"
  shows "col_loop cfg lat r lon c cells =
           Some (cells @ map (\<lambda>k. new_cell cfg lat r (lon + real k * DLON cfg) (c + k)) [0..<n])"
  using assms
proof (induction n arbitrary: lon c cells)
  case 0
  then show ?case
    by (subst col_loop.simps) (simp add: steps_0)
next
  case (Suc n)
  from Suc.prems have here: "lon < LON_MAX cfg - EPS"
    and rest: "steps (lon + DLON cfg) (DLON cfg) (LON_MAX cfg) n"
    by (simp_all add: steps_Suc)
  from Suc.IH[OF rest] have
    "col_loop cfg lat r (lon + DLON cfg) (c + 1) (cells @ [new_cell cfg lat r lon c]) =
       Some (cells @ new_cell cfg lat r lon c #
         map (\<lambda>k. new_cell cfg lat r (lon + DLON cfg + real k * DLON cfg) (c + 1 + k)) [0..<n])"
    by simp
  then have "col_loop cfg lat r (lon + DLON cfg) (c + 1) (cells @ [new_cell cfg lat r lon c]) =
       Some (cells @ map (\<lambda>k. new_cell cfg lat r (lon + real k * DLON cfg) (c + k)) [0..<Suc n])"
    by (simp only: map_shift[where g = "new_cell cfg lat r"])
  then show ?case
    using here by (subst col_loop.simps) simp
qed

lemma col_loop_Some:
  assumes "col_loop cfg lat r lon c cells = Some out"
  shows "\<exists>n. steps lon (DLON cfg) (LON_MAX cfg) n
           \<and> out = cells @ map (\<lambda>k. new_cell cfg lat r (lon + real k * DLON cfg) (c + k)) [0..<n]"
proof (rule col_loop.raw_induct[where P = "\<lambda>cfg lat r lon c cells out.
    \<exists>n. steps lon (DLON cfg) (LON_MAX cfg) n
           \<and> out = cells @ map (\<lambda>k. new_cell cfg lat r (lon + real k * DLON cfg) (c + k)) [0..<n]",
    OF _ assms])
  fix f cfg lat r lon c cells out
  assume IH: "\<And>cfg lat r lon c cells out. f cfg lat r lon c cells = Some out \<Longrightarrow>
      \<exists>n. steps lon (DLON cfg) (LON_MAX cfg) n
           \<and> out = cells @ map (\<lambda>k. new_cell cfg lat r (lon + real k * DLON cfg) (c + k)) [0..<n]"
    and eq: "(if lon < LON_MAX cfg - EPS
      then f cfg lat r (lon + DLON cfg) (c + 1) (cells @ [new_cell cfg lat r lon c])
      else Some cells) = Some out"
  show "\<exists>n. steps lon (DLON cfg) (LON_MAX cfg) n
           \<and> out = cells @ map (\<lambda>k. new_cell cfg lat r (lon + real k * DLON cfg) (c + k)) [0..<n]"
  proof (cases "lon < LON_MAX cfg - EPS")
    case False
    with eq have "steps lon (DLON cfg) (LON_MAX cfg) 0 \<and> out = cells @ map (\<lambda>k. new_cell cfg lat r (lon + real k * DLON cfg) (c + k)) [0..<0]"
      by (simp add: steps_0)
    then show ?thesis ..
  next
    case True
    with eq have "f cfg lat r (lon + DLON cfg) (c + 1) (cells @ [new_cell cfg lat r lon c]) = Some out"
      by simp
    from IH[OF this] obtain n where n: "steps (lon + DLON cfg) (DLON cfg) (LON_MAX cfg) n"
      and out: "out = (cells @ [new_cell cfg lat r lon c]) @
         map (\<lambda>k. new_cell cfg lat r (lon + DLON cfg + real k * DLON cfg) (c + 1 + k)) [0..<n]"
      by blast
    from out have "out = cells @ new_cell cfg lat r lon c #
         map (\<lambda>k. new_cell cfg lat r (lon + DLON cfg + real k * DLON cfg) (c + 1 + k)) [0..<n]"
      by simp
    then have "out = cells @ map (\<lambda>k. new_cell cfg lat r (lon + real k * DLON cfg) (c + k)) [0..<Suc n]"
      by (simp only: map_shift[where g = "new_cell cfg lat r"])
    moreover have "steps lon (DLON cfg) (LON_MAX cfg) (Suc n)"
      using True n by (simp add: steps_Suc)
    ultimately show ?thesis
      by blast
  qed
qed


lemma concat_shift:
  "g a c @ concat (map (\<lambda>k. g (a + d + real k * d) (c + 1 + k)) [0..<n]) =
     concat (map (\<lambda>k. g (a + real k * d) (c + k)) [0..<Suc n])"
  using map_shift[of g a c d n, THEN arg_cong[where f = concat]] by simp

lemma row_loop_closed:
  assumes "steps lat (DLAT cfg) (LAT_MAX cfg) n"
    and "0 < n \<longrightarrow> steps (LON_MIN cfg) (DLON cfg) (LON_MAX cfg) m"
  shows "row_loop cfg lat r cells =
           Some (cells @ concat (map (\<lambda>i. map (\<lambda>j. new_cell cfg (lat + real i * DLAT cfg) (r + i)
                                          (LON_MIN cfg + real j * DLON cfg) j) [0..<m]) [0..<n]),
                 r + n)"
  using assms
proof (induction n arbitrary: lat r cells)
  case 0
  then show ?case
    by (subst row_loop.simps) (simp add: steps_0)
next
  case (Suc n)
  let ?G = "\<lambda>lat r. map (\<lambda>j. new_cell cfg lat r (LON_MIN cfg + real j * DLON cfg) j) [0..<m]"
  from Suc.prems have here: "lat < LAT_MAX cfg - EPS"
    and rest: "steps (lat + DLAT cfg) (DLAT cfg) (LAT_MAX cfg) n"
    and cols: "steps (LON_MIN cfg) (DLON cfg) (LON_MAX cfg) m"
    by (simp_all add: steps_Suc)
  have c: "col_loop cfg lat r (LON_MIN cfg) 0 cells = Some (cells @ ?G lat r)"
    using col_loop_closed[OF cols, of lat r 0 cells] by simp
  have "row_loop cfg (lat + DLAT cfg) (r + 1) (cells @ ?G lat r) =
      Some ((cells @ ?G lat r) @ concat (map (\<lambda>i. ?G (lat + DLAT cfg + real i * DLAT cfg) (r + 1 + i)) [0..<n]),
            r + 1 + n)"
    by (rule Suc.IH[OF rest]) (simp add: cols)
  moreover have e: "?G lat r @ concat (map (\<lambda>i. ?G (lat + DLAT cfg + real i * DLAT cfg) (r + 1 + i)) [0..<n]) =
      concat (map (\<lambda>i. ?G (lat + real i * DLAT cfg) (r + i)) [0..<Suc n])"
    by (rule concat_shift[where g = ?G])
  ultimately have "row_loop cfg (lat + DLAT cfg) (r + 1) (cells @ ?G lat r) =
      Some (cells @ concat (map (\<lambda>i. ?G (lat + real i * DLAT cfg) (r + i)) [0..<Suc n]), r + Suc n)"
    by (simp add: e[symmetric] del: upt_Suc)
  then show ?case
    using here c by (subst row_loop.simps) simp
qed

lemma row_loop_Some:
  assumes "row_loop cfg lat r cells = Some res"
  shows "\<exists>n m. steps lat (DLAT cfg) (LAT_MAX cfg) n
           \<and> (0 < n \<longrightarrow> steps (LON_MIN cfg) (DLON cfg) (LON_MAX cfg) m)
           \<and> res = (cells @ concat (map (\<lambda>i. map (\<lambda>j. new_cell cfg (lat + real i * DLAT cfg) (r + i)
                                          (LON_MIN cfg + real j * DLON cfg) j) [0..<m]) [0..<n]),
                     r + n)"
proof (rule row_loop.raw_induct[where P = "\<lambda>cfg lat r cells res.
    \<exists>n m. steps lat (DLAT cfg) (LAT_MAX cfg) n
           \<and> (0 < n \<longrightarrow> steps (LON_MIN cfg) (DLON cfg) (LON_MAX cfg) m)
           \<and> res = (cells @ concat (map (\<lambda>i. map (\<lambda>j. new_cell cfg (lat + real i * DLAT cfg) (r + i)
                                          (LON_MIN cfg + real j * DLON cfg) j) [0..<m]) [0..<n]),
                     r + n)", OF _ assms])
  fix f cfg lat r cells res
  let ?G = "\<lambda>m lat r. map (\<lambda>j. new_cell cfg lat r (LON_MIN cfg + real j * DLON cfg) j) [0..<m]"
  assume IH: "\<And>cfg lat r cells res. f cfg lat r cells = Some res \<Longrightarrow>
      \<exists>n m. steps lat (DLAT cfg) (LAT_MAX cfg) n
           \<and> (0 < n \<longrightarrow> steps (LON_MIN cfg) (DLON cfg) (LON_MAX cfg) m)
           \<and> res = (cells @ concat (map (\<lambda>i. map (\<lambda>j. new_cell cfg (lat + real i * DLAT cfg) (r + i)
                                          (LON_MIN cfg + real j * DLON cfg) j) [0..<m]) [0..<n]),
                     r + n)"
    and eq: "(if lat < LAT_MAX cfg - EPS
      then Option.bind (col_loop cfg lat r (LON_MIN cfg) 0 cells) (f cfg (lat + DLAT cfg) (r + 1))
      else Some (cells, r)) = Some res"
  show "\<exists>n m. steps lat (DLAT cfg) (LAT_MAX cfg) n
           \<and> (0 < n \<longrightarrow> steps (LON_MIN cfg) (DLON cfg) (LON_MAX cfg) m)
           \<and> res = (cells @ concat (map (\<lambda>i. ?G m (lat + real i * DLAT cfg) (r + i)) [0..<n]), r + n)"
  proof (cases "lat < LAT_MAX cfg - EPS")
    case False
    with eq have "steps lat (DLAT cfg) (LAT_MAX cfg) 0
        \<and> (0 < (0::nat) \<longrightarrow> steps (LON_MIN cfg) (DLON cfg) (LON_MAX cfg) 0)
        \<and> res = (cells @ concat (map (\<lambda>i. ?G 0 (lat + real i * DLAT cfg) (r + i)) [0..<0]), r + 0)"
      by (simp add: steps_0)
    then show ?thesis
      by blast
  next
    case True
    with eq obtain cells' where c: "col_loop cfg lat r (LON_MIN cfg) 0 cells = Some cells'"
      and f: "f cfg (lat + DLAT cfg) (r + 1) cells' = Some res"
      by (auto simp: bind_eq_Some_conv)
    from col_loop_Some[OF c] obtain m where m: "steps (LON_MIN cfg) (DLON cfg) (LON_MAX cfg) m"
      and cells': "cells' = cells @ ?G m lat r"
      by auto
    from IH[OF f] obtain n m' where n: "steps (lat + DLAT cfg) (DLAT cfg) (LAT_MAX cfg) n"
      and m': "0 < n \<longrightarrow> steps (LON_MIN cfg) (DLON cfg) (LON_MAX cfg) m'"
      and res: "res = (cells' @ concat (map (\<lambda>i. ?G m' (lat + DLAT cfg + real i * DLAT cfg) (r + 1 + i)) [0..<n]),
                     r + 1 + n)"
      by blast
    have res': "res = (cells' @ concat (map (\<lambda>i. ?G m (lat + DLAT cfg + real i * DLAT cfg) (r + 1 + i)) [0..<n]),
                     r + 1 + n)"
    proof (cases "0 < n")
      case True
      with m' m have "m' = m"
        by (blast intro: steps_unique)
      with res show ?thesis by simp
    next
      case False
      with res show ?thesis by simp
    qed
    moreover have e: "?G m lat r @ concat (map (\<lambda>i. ?G m (lat + DLAT cfg + real i * DLAT cfg) (r + 1 + i)) [0..<n]) =
      concat (map (\<lambda>i. ?G m (lat + real i * DLAT cfg) (r + i)) [0..<Suc n])"
      by (rule concat_shift[where g = "?G m"])
    ultimately have "res = (cells @ concat (map (\<lambda>i. ?G m (lat + real i * DLAT cfg) (r + i)) [0..<Suc n]), r + Suc n)"
      unfolding cells' by (simp add: e[symmetric] del: upt_Suc)
    moreover have "steps lat (DLAT cfg) (LAT_MAX cfg) (Suc n)"
      using True n by (simp add: steps_Suc)
    ultimately show ?thesis
      using m by blast
  qed
qed

lemma grid_cells_new_cell:
  "grid_cells cfg n m =
     concat (map (\<lambda>i. map (\<lambda>j. new_cell cfg (LAT_MIN cfg + real i * DLAT cfg) (0 + i)
                                   (LON_MIN cfg + real j * DLON cfg) j) [0..<m]) [0..<n])"
  unfolding grid_cells_def cell_at_def[abs_def] by simp

lemma buildGrid_Some:
  assumes "buildGrid cfg = Some (cells, nrows)"
  shows "\<exists>m. steps (LAT_MIN cfg) (DLAT cfg) (LAT_MAX cfg) nrows
           \<and> (0 < nrows \<longrightarrow> steps (LON_MIN cfg) (DLON cfg) (LON_MAX cfg) m)
           \<and> cells = grid_cells cfg nrows m"
proof -
  from row_loop_Some[OF assms[unfolded buildGrid_def]] obtain n m
    where n: "steps (LAT_MIN cfg) (DLAT cfg) (LAT_MAX cfg) n"
      and m: "0 < n \<longrightarrow> steps (LON_MIN cfg) (DLON cfg) (LON_MAX cfg) m"
      and res: "(cells, nrows) = ([] @ concat (map (\<lambda>i. map (\<lambda>j. new_cell cfg (LAT_MIN cfg + real i * DLAT cfg) (0 + i)
                                          (LON_MIN cfg + real j * DLON cfg) j) [0..<m]) [0..<n]), 0 + n)"
    by blast
  from res have "nrows = n" and "cells = grid_cells cfg n m"
    unfolding grid_cells_new_cell by simp_all
  with n m show ?thesis
    by blast
qed

lemma buildGrid_total:
  assumes "0 < DLAT cfg" and "0 < DLON cfg"
  shows "\<exists>n m. steps (LAT_MIN cfg) (DLAT cfg) (LAT_MAX cfg) n
           \<and> steps (LON_MIN cfg) (DLON cfg) (LON_MAX cfg) m
           \<and> buildGrid cfg = Some (grid_cells cfg n m, n)"
proof -
  from steps_exists[OF assms(1)] obtain n where n: "steps (LAT_MIN cfg) (DLAT cfg) (LAT_MAX cfg) n"
    by blast
  from steps_exists[OF assms(2)] obtain m where m: "steps (LON_MIN cfg) (DLON cfg) (LON_MAX cfg) m"
    by blast
  have "buildGrid cfg = Some (grid_cells cfg n m, n)"
    unfolding buildGrid_def grid_cells_new_cell
    using row_loop_closed[OF n, of m 0 "[]"] m by simp
  with n m show ?thesis
    by blast
qed

subsection \<open>Cell ids\<close>

lemma of_char_digit: "n < 10 \<Longrightarrow> (of_char (digit_char n) :: nat) = 48 + n"
  by (simp add: digit_char_def)

lemma digit_char_inj:
  assumes "a < 10" and "b < 10" and "digit_char a = digit_char b"
  shows "a = b"
proof -
  have "(48 + a :: nat) = of_char (digit_char a)"
    using assms(1) by (simp only: of_char_digit)
  also have "\<dots> = of_char (digit_char b)"
    by (simp only: assms(3))
  also have "\<dots> = 48 + b"
    using assms(2) by (simp only: of_char_digit)
  finally show ?thesis
    by simp
qed

lemma show_nat_chars: "ch \<in> set (show_nat n) \<Longrightarrow> (of_char ch :: nat) < 58"
proof (induction n rule: show_nat.induct)
  case (1 n)
  show ?case
  proof (cases "n < 10")
    case True
    with "1.prems" have "ch = digit_char n"
      by (simp add: show_nat.simps[of n])
    with True show ?thesis
      by (simp add: of_char_digit)
  next
    case False
    with "1.prems" have "ch \<in> set (show_nat (n div 10)) \<or> ch = digit_char (n mod 10)"
      by (auto simp: show_nat.simps[of n])
    then show ?thesis
    proof
      assume "ch \<in> set (show_nat (n div 10))"
      with "1.IH"[OF False] show ?thesis .
    next
      assume "ch = digit_char (n mod 10)"
      then show ?thesis
        by (simp add: of_char_digit)
    qed
  qed
qed

lemma c_not_in_show_nat: "CHR ''c'' \<notin> set (show_nat n)"
  using show_nat_chars[of "CHR ''c''" n] by auto

lemma show_nat_nonempty: "show_nat n \<noteq> []"
  by (subst show_nat.simps) simp

lemma show_nat_inj: "show_nat n = show_nat m \<Longrightarrow> n = m"
proof (induction n arbitrary: m rule: show_nat.induct)
  case (1 n)
  show ?case
  proof (cases "n < 10")
    case n: True
    show ?thesis
    proof (cases "m < 10")
      case True
      with n "1.prems" have "digit_char n = digit_char m"
        by (simp add: show_nat.simps[of n] show_nat.simps[of m])
      with n True show ?thesis
        by (rule digit_char_inj)
    next
      case False
      with n "1.prems" have "[digit_char n] = show_nat (m div 10) @ [digit_char (m mod 10)]"
        by (simp add: show_nat.simps[of n] show_nat.simps[of m])
      then have "show_nat (m div 10) = []"
        by simp
      with show_nat_nonempty show ?thesis
        by blast
    qed
  next
    case n: False
    show ?thesis
    proof (cases "m < 10")
      case True
      with n "1.prems" have "show_nat (n div 10) @ [digit_char (n mod 10)] = [digit_char m]"
        by (simp add: show_nat.simps[of n] show_nat.simps[of m])
      then have "show_nat (n div 10) = []"
        by simp
      with show_nat_nonempty show ?thesis
        by blast
    next
      case False
      with n "1.prems" have "show_nat (n div 10) @ [digit_char (n mod 10)]
          = show_nat (m div 10) @ [digit_char (m mod 10)]"
        by (simp add: show_nat.simps[of n] show_nat.simps[of m])
      then have a: "show_nat (n div 10) = show_nat (m div 10)"
        and b: "digit_char (n mod 10) = digit_char (m mod 10)"
        by simp_all
      from "1.IH"[OF n a] have "n div 10 = m div 10" .
      moreover from b have "n mod 10 = m mod 10"
        by (intro digit_char_inj) simp_all
      ultimately show ?thesis
        by (metis div_mult_mod_eq)
    qed
  qed
qed

lemma cell_id_inj:
  assumes "''r'' @ show_nat i @ ''c'' @ show_nat j = ''r'' @ show_nat i' @ ''c'' @ show_nat j'"
  shows "i = i' \<and> j = j'"
proof -
  from assms have "show_nat i @ CHR ''c'' # show_nat j = show_nat i' @ CHR ''c'' # show_nat j'"
    by simp
  then have "show_nat i = show_nat i' \<and> show_nat j = show_nat j'"
    using c_not_in_show_nat by (simp add: append_Cons_eq_iff)
  then show ?thesis
    by (blast dest: show_nat_inj)
qed

lemma cell_at_sel:
  "row (cell_at cfg i j) = i" "col (cell_at cfg i j) = j"
  "id' (cell_at cfg i j) = ''r'' @ show_nat i @ ''c'' @ show_nat j"
  "lat_min (cell_at cfg i j) = LAT_MIN cfg + real i * DLAT cfg"
  "lat_max (cell_at cfg i j) = min (LAT_MIN cfg + real i * DLAT cfg + DLAT cfg) (LAT_MAX cfg)"
  "lon_min (cell_at cfg i j) = LON_MIN cfg + real j * DLON cfg"
  "lon_max (cell_at cfg i j) = min (LON_MIN cfg + real j * DLON cfg + DLON cfg) (LON_MAX cfg)"
  by (simp_all add: cell_at_def new_cell_def Let_def)

lemma grid_cells_product:
  "grid_cells cfg n m = map (\<lambda>(i, j). cell_at cfg i j) (List.product [0..<n] [0..<m])"
  by (simp add: grid_cells_def product_concat_map map_concat comp_def)

lemma set_grid_cells: "set (grid_cells cfg n m) = {cell_at cfg i j | i j. i < n \<and> j < m}"
  unfolding grid_cells_product by force

lemma sorted_product:
  assumes "sorted_wrt (<) xs" and "sorted_wrt (<) ys"
  shows "sorted_wrt (\<lambda>a b. fst a < fst b \<or> (fst a = fst b \<and> snd a < snd b))
           (List.product xs (ys :: nat list))"
  using assms(1)
proof (induction xs)
  case Nil
  then show ?case by simp
next
  case (Cons x xs)
  have "sorted_wrt (\<lambda>a b. fst a < fst b \<or> (fst a = fst b \<and> snd a < snd b)) (map (Pair x) ys)"
    unfolding sorted_wrt_map by (rule sorted_wrt_mono_rel[OF _ assms(2)]) simp
  moreover from Cons have "sorted_wrt (\<lambda>a b. fst a < fst b \<or> (fst a = fst b \<and> snd a < snd b))
      (List.product xs ys)"
    by simp
  moreover from Cons.prems have "\<forall>x' \<in> set xs. x < x'"
    by simp
  ultimately show ?case
    by (auto simp: sorted_wrt_append)
qed

lemma grid_cells_sorted:
  "sorted_wrt (\<lambda>a b. row a < row b \<or> (row a = row b \<and> col a < col b)) (grid_cells cfg n m)"
proof -
  have "sorted_wrt (\<lambda>a b. fst a < fst b \<or> (fst a = fst b \<and> snd a < snd b))
      (List.product [0..<n] [0..<m])"
    by (rule sorted_product) simp_all
  then show ?thesis
    unfolding grid_cells_product sorted_wrt_map
    by (simp add: case_prod_unfold cell_at_sel)
qed


lemma grid_cells_distinct_ids: "distinct (map id' (grid_cells cfg n m))"
proof -
  let ?f = "\<lambda>p. ''r'' @ show_nat (fst p) @ ''c'' @ show_nat (snd p)"
  have "map id' (grid_cells cfg n m) = map ?f (List.product [0..<n] [0..<m])"
    by (simp add: grid_cells_product cell_at_sel case_prod_unfold)
  moreover have "inj_on ?f (set (List.product [0..<n] [0..<m]))"
  proof (rule inj_onI)
    fix p q :: "nat \<times> nat"
    assume "?f p = ?f q"
    from cell_id_inj[OF this] show "p = q"
      by (simp add: prod_eq_iff)
  qed
  moreover have "distinct (List.product [0..<n] [0..<m])"
    by (simp add: distinct_product)
  ultimately show ?thesis
    by (simp only: distinct_map simp_thms)
qed

text \<open>
  Claim C9. In every grid that \<open>buildGrid\<close> returns, the cell ids are pairwise distinct,
  each is built from the row and the column of its cell, and the cells come in row-major
  order: along the list the row never decreases, and within a row the column never
  decreases.
\<close>

theorem grid_ids_distinct_row_major:
  assumes "buildGrid cfg = Some (cells, nrows)"
  shows "distinct (map id' cells)
       \<and> (\<forall>c \<in> set cells. id' c = ''r'' @ show_nat (row c) @ ''c'' @ show_nat (col c))
       \<and> sorted_wrt (\<lambda>a b. row a \<le> row b \<and> (row a = row b \<longrightarrow> col a \<le> col b)) cells"
proof -
  from buildGrid_Some[OF assms] obtain m where cells: "cells = grid_cells cfg nrows m"
    by blast
  have "sorted_wrt (\<lambda>a b. row a \<le> row b \<and> (row a = row b \<longrightarrow> col a \<le> col b)) (grid_cells cfg nrows m)"
    by (rule sorted_wrt_mono_rel[OF _ grid_cells_sorted]) auto
  moreover have "\<forall>c \<in> set (grid_cells cfg nrows m). id' c = ''r'' @ show_nat (row c) @ ''c'' @ show_nat (col c)"
    by (auto simp: set_grid_cells cell_at_sel)
  ultimately show ?thesis
    unfolding cells using grid_cells_distinct_ids by blast
qed

theorem grid_ids_distinct_row_major_witness:
  "buildGrid cfg0 = Some (CELLS0, NROWS0)
   \<and> map (\<lambda>c. (id' c, row c, col c)) CELLS0
       = [(''r0c0'', 0, 0), (''r0c1'', 0, 1), (''r1c0'', 1, 0), (''r1c1'', 1, 1)]
   \<and> distinct (map id' CELLS0)"
proof -
  have h: "buildGrid cfg0 = Some (CELLS0, NROWS0)"
    by (simp add: buildGrid_cfg0 CELLS0 NROWS0)
  from grid_ids_distinct_row_major[OF h] have "distinct (map id' CELLS0)"
    by blast
  with h show ?thesis
    by (simp add: CELLS0)
qed



subsection \<open>Tiling\<close>

lemma EPS_pos: "0 < EPS"
  by (simp add: EPS_def)

lemma steps_below:
  assumes "steps a d M n" and "k < n"
  shows "a + real k * d < M - EPS"
  using assms by (simp add: steps_def)

lemma steps_reach:
  assumes "steps a d M n"
  shows "M - EPS \<le> a + real n * d"
  using assms by (simp add: steps_def)

lemma axis_next:
  assumes "steps a d M n" and "Suc k < n"
  shows "min (a + real k * d + d) M = a + real (Suc k) * d"
proof -
  from steps_below[OF assms] EPS_pos have "a + real (Suc k) * d < M"
    by linarith
  then show ?thesis
    by (simp add: algebra_simps)
qed

lemma axis_nonempty:
  assumes "0 < d" and "steps a d M n" and "k < n"
  shows "a + real k * d < min (a + real k * d + d) M"
  using steps_below[OF assms(2,3)] EPS_pos assms(1) by simp

lemma axis_union:
  assumes "0 < d" and "steps a d M n" and "n' < n"
  shows "(\<Union>k \<le> n'. {a + real k * d .. min (a + real k * d + d) M})
           = {a .. min (a + real n' * d + d) M}"
  using assms(3)
proof (induction n')
  case 0
  then show ?case by simp
next
  case (Suc n')
  then have IH: "(\<Union>k \<le> n'. {a + real k * d .. min (a + real k * d + d) M})
           = {a .. min (a + real n' * d + d) M}"
    by simp
  have touch: "min (a + real n' * d + d) M = a + real (Suc n') * d"
    using axis_next[OF assms(2) Suc.prems] .
  have up: "a + real (Suc n') * d \<le> min (a + real (Suc n') * d + d) M"
    using axis_nonempty[OF assms(1,2) Suc.prems] by simp
  have "0 \<le> real (Suc n') * d"
    using assms(1) by simp
  then have low: "a \<le> a + real (Suc n') * d"
    by simp
  have "(\<Union>k \<le> Suc n'. {a + real k * d .. min (a + real k * d + d) M})
      = {a .. a + real (Suc n') * d} \<union> {a + real (Suc n') * d .. min (a + real (Suc n') * d + d) M}"
    unfolding atMost_Suc using IH touch by (simp add: Un_commute)
  also have "\<dots> = {a .. min (a + real (Suc n') * d + d) M}"
    using low up by (rule ivl_disj_un_two_touch)
  finally show ?case .
qed

lemma axis_top:
  assumes "steps a d M (Suc n)"
  shows "M - EPS \<le> min (a + real n * d + d) M \<and> min (a + real n * d + d) M \<le> M"
proof -
  from steps_reach[OF assms] have "M - EPS \<le> a + real n * d + d"
    by (simp add: algebra_simps)
  with EPS_pos show ?thesis
    by simp
qed

lemma axis_apart:
  assumes "0 < d" and "k < k'"
  shows "min (a + real k * d + d) M \<le> a + real k' * d"
proof -
  from assms(2) have "real k + 1 \<le> real k'"
    by linarith
  then have "(real k + 1) * d \<le> real k' * d"
    using assms(1) by (simp only: mult_le_cancel_right_pos)
  then show ?thesis
    by (simp add: algebra_simps min_le_iff_disj)
qed

lemma cell_box_at:
  "cell_box (cell_at cfg i j) =
     {LAT_MIN cfg + real i * DLAT cfg .. min (LAT_MIN cfg + real i * DLAT cfg + DLAT cfg) (LAT_MAX cfg)}
     \<times> {LON_MIN cfg + real j * DLON cfg .. min (LON_MIN cfg + real j * DLON cfg + DLON cfg) (LON_MAX cfg)}"
  by (auto simp: cell_box_def cell_at_sel)

lemma union_boxes:
  "(\<Union>c \<in> set (grid_cells cfg (Suc n) (Suc m)). cell_box c) =
     (\<Union>i \<le> n. {LAT_MIN cfg + real i * DLAT cfg .. min (LAT_MIN cfg + real i * DLAT cfg + DLAT cfg) (LAT_MAX cfg)})
     \<times> (\<Union>j \<le> m. {LON_MIN cfg + real j * DLON cfg .. min (LON_MIN cfg + real j * DLON cfg + DLON cfg) (LON_MAX cfg)})"
  (is "?L = ?A \<times> ?B")
proof (rule set_eqI)
  fix p :: "real \<times> real"
  have "p \<in> ?L \<longleftrightarrow> (\<exists>i j. i < Suc n \<and> j < Suc m \<and> p \<in> cell_box (cell_at cfg i j))"
    unfolding set_grid_cells by blast
  also have "\<dots> \<longleftrightarrow> (\<exists>i j. i \<le> n \<and> j \<le> m \<and> p \<in> cell_box (cell_at cfg i j))"
    by (simp add: less_Suc_eq_le)
  also have "\<dots> \<longleftrightarrow> p \<in> ?A \<times> ?B"
    unfolding cell_box_at by (cases p) blast
  finally show "p \<in> ?L \<longleftrightarrow> p \<in> ?A \<times> ?B" .
qed

lemma interiors_disjoint:
  assumes "0 < DLAT cfg" and "0 < DLON cfg" and "(i, j) \<noteq> (i', j')"
  shows "cell_interior (cell_at cfg i j) \<inter> cell_interior (cell_at cfg i' j') = {}"
proof -
  from assms(3) consider "i < i'" | "i' < i" | "j < j'" | "j' < j"
    by (metis linorder_neqE_nat prod.inject)
  then show ?thesis
  proof cases
    case 1
    from axis_apart[OF assms(1) this, of "LAT_MIN cfg" "LAT_MAX cfg"] show ?thesis
      by (auto simp: cell_interior_def cell_at_sel)
  next
    case 2
    from axis_apart[OF assms(1) this, of "LAT_MIN cfg" "LAT_MAX cfg"] show ?thesis
      by (auto simp: cell_interior_def cell_at_sel)
  next
    case 3
    from axis_apart[OF assms(2) this, of "LON_MIN cfg" "LON_MAX cfg"] show ?thesis
      by (auto simp: cell_interior_def cell_at_sel)
  next
    case 4
    from axis_apart[OF assms(2) this, of "LON_MIN cfg" "LON_MAX cfg"] show ?thesis
      by (auto simp: cell_interior_def cell_at_sel)
  qed
qed

lemma steps_positive:
  assumes "0 < GRID_KM cfg" and "- 90 < MID_LAT cfg" and "MID_LAT cfg < 90"
  shows "0 < DLAT cfg \<and> 0 < DLON cfg"
proof -
  have "pi / 180 * (- 90) < pi / 180 * MID_LAT cfg" and "pi / 180 * MID_LAT cfg < pi / 180 * 90"
    using assms(2,3) pi_gt_zero by (simp_all only: mult_less_cancel_left_pos divide_pos_pos zero_less_numeral)
  then have "- (pi / 2) < pi / 180 * MID_LAT cfg" and "pi / 180 * MID_LAT cfg < pi / 2"
    by simp_all
  then have "0 < cos (pi / 180 * MID_LAT cfg)"
    by (rule cos_gt_zero_pi)
  with assms(1) show ?thesis
    by (simp add: DLAT_def DLON_def KM_PER_DEG_LAT_def KM_PER_DEG_LON_def)
qed

text \<open>
  Claim C3, amended. For a positive resolution, a mid latitude strictly between -90 and
  90 degrees and a bounding box that is more than the loop tolerance \<open>1e-12\<close> high and
  wide, \<open>buildGrid\<close> returns, and its cells tile the bounding box up to that
  tolerance: the union of the cell boxes is the rectangle from the lower bounds to some
  \<open>T\<close> and \<open>R\<close> that lie at most \<open>1e-12\<close> below the upper bounds, and never above them;
  two different cells share no interior point; and the upper bounds of every cell are
  \<open>min (start + step, axisMax)\<close>, so none exceeds the axis maximum.
\<close>

theorem grid_tiles_up_to_tolerance:
  assumes "0 < GRID_KM cfg" and "- 90 < MID_LAT cfg" and "MID_LAT cfg < 90"
    and "LAT_MIN cfg < LAT_MAX cfg - EPS" and "LON_MIN cfg < LON_MAX cfg - EPS"
  shows "\<exists>cells nrows T R.
           buildGrid cfg = Some (cells, nrows)
         \<and> LAT_MAX cfg - EPS \<le> T \<and> T \<le> LAT_MAX cfg
         \<and> LON_MAX cfg - EPS \<le> R \<and> R \<le> LON_MAX cfg
         \<and> (\<Union>c \<in> set cells. cell_box c) = {LAT_MIN cfg .. T} \<times> {LON_MIN cfg .. R}
         \<and> distinct cells
         \<and> (\<forall>c \<in> set cells. \<forall>c' \<in> set cells. c \<noteq> c' \<longrightarrow> cell_interior c \<inter> cell_interior c' = {})
         \<and> (\<forall>c \<in> set cells.
               lat_max c = min (lat_min c + DLAT cfg) (LAT_MAX cfg)
             \<and> lon_max c = min (lon_min c + DLON cfg) (LON_MAX cfg)
             \<and> lat_max c \<le> LAT_MAX cfg \<and> lon_max c \<le> LON_MAX cfg)"
proof -
  from steps_positive[OF assms(1,2,3)] have dlat: "0 < DLAT cfg" and dlon: "0 < DLON cfg"
    by simp_all
  from buildGrid_total[OF dlat dlon] obtain n m
    where n: "steps (LAT_MIN cfg) (DLAT cfg) (LAT_MAX cfg) n"
      and m: "steps (LON_MIN cfg) (DLON cfg) (LON_MAX cfg) m"
      and b: "buildGrid cfg = Some (grid_cells cfg n m, n)"
    by blast
  from n assms(4) obtain n0 where n0: "n = Suc n0"
    by (cases n) (simp_all add: steps_0)
  from m assms(5) obtain m0 where m0: "m = Suc m0"
    by (cases m) (simp_all add: steps_0)
  let ?T = "min (LAT_MIN cfg + real n0 * DLAT cfg + DLAT cfg) (LAT_MAX cfg)"
  let ?R = "min (LON_MIN cfg + real m0 * DLON cfg + DLON cfg) (LON_MAX cfg)"
  have T: "LAT_MAX cfg - EPS \<le> ?T \<and> ?T \<le> LAT_MAX cfg"
    using n unfolding n0 by (rule axis_top)
  have R: "LON_MAX cfg - EPS \<le> ?R \<and> ?R \<le> LON_MAX cfg"
    using m unfolding m0 by (rule axis_top)
  have A: "(\<Union>i \<le> n0. {LAT_MIN cfg + real i * DLAT cfg ..
        min (LAT_MIN cfg + real i * DLAT cfg + DLAT cfg) (LAT_MAX cfg)}) = {LAT_MIN cfg .. ?T}"
    by (rule axis_union[OF dlat n]) (simp add: n0)
  have B: "(\<Union>j \<le> m0. {LON_MIN cfg + real j * DLON cfg ..
        min (LON_MIN cfg + real j * DLON cfg + DLON cfg) (LON_MAX cfg)}) = {LON_MIN cfg .. ?R}"
    by (rule axis_union[OF dlon m]) (simp add: m0)
  have cover: "(\<Union>c \<in> set (grid_cells cfg n m). cell_box c) = {LAT_MIN cfg .. ?T} \<times> {LON_MIN cfg .. ?R}"
    unfolding n0 m0 union_boxes A B ..
  have dist: "distinct (grid_cells cfg n m)"
    using grid_cells_distinct_ids[of cfg n m] by (simp add: distinct_map)
  have apart: "\<forall>c \<in> set (grid_cells cfg n m). \<forall>c' \<in> set (grid_cells cfg n m).
      c \<noteq> c' \<longrightarrow> cell_interior c \<inter> cell_interior c' = {}"
  proof (intro ballI impI)
    fix c c' assume "c \<in> set (grid_cells cfg n m)" and "c' \<in> set (grid_cells cfg n m)" and ne: "c \<noteq> c'"
    then obtain i j i' j' where c: "c = cell_at cfg i j" and c': "c' = cell_at cfg i' j'"
      unfolding set_grid_cells by blast
    with ne have "(i, j) \<noteq> (i', j')"
      by auto
    from interiors_disjoint[OF dlat dlon this] show "cell_interior c \<inter> cell_interior c' = {}"
      by (simp add: c c')
  qed
  have bounds: "\<forall>c \<in> set (grid_cells cfg n m).
               lat_max c = min (lat_min c + DLAT cfg) (LAT_MAX cfg)
             \<and> lon_max c = min (lon_min c + DLON cfg) (LON_MAX cfg)
             \<and> lat_max c \<le> LAT_MAX cfg \<and> lon_max c \<le> LON_MAX cfg"
    unfolding set_grid_cells by (auto simp: cell_at_sel)
  from b T R cover dist apart bounds show ?thesis
    by blast
qed


lemma buildGrid_CELLS0: "buildGrid cfg0 = Some (CELLS0, NROWS0)"
  by (simp add: buildGrid_cfg0 CELLS0 NROWS0)

theorem grid_tiles_up_to_tolerance_witness:
  "0 < GRID_KM cfg0 \<and> - 90 < MID_LAT cfg0 \<and> MID_LAT cfg0 < 90
   \<and> LAT_MIN cfg0 < LAT_MAX cfg0 - EPS \<and> LON_MIN cfg0 < LON_MAX cfg0 - EPS
   \<and> buildGrid cfg0 = Some (CELLS0, NROWS0)
   \<and> (\<exists>T R. LAT_MAX cfg0 - EPS \<le> T \<and> T \<le> LAT_MAX cfg0
          \<and> LON_MAX cfg0 - EPS \<le> R \<and> R \<le> LON_MAX cfg0
          \<and> \<Union> (cell_box ` set CELLS0) = {LAT_MIN cfg0 .. T} \<times> {LON_MIN cfg0 .. R})"
proof -
  have h: "0 < GRID_KM cfg0" "- 90 < MID_LAT cfg0" "MID_LAT cfg0 < 90"
    "LAT_MIN cfg0 < LAT_MAX cfg0 - EPS" "LON_MIN cfg0 < LON_MAX cfg0 - EPS"
    by (simp_all add: cfg0_def MID_LAT_def EPS_def)
  from grid_tiles_up_to_tolerance[OF h] obtain cells nrows T R
    where b: "buildGrid cfg0 = Some (cells, nrows)"
      and t: "LAT_MAX cfg0 - EPS \<le> T" "T \<le> LAT_MAX cfg0" "LON_MAX cfg0 - EPS \<le> R" "R \<le> LON_MAX cfg0"
      and u: "(\<Union>c \<in> set cells. cell_box c) = {LAT_MIN cfg0 .. T} \<times> {LON_MIN cfg0 .. R}"
    by blast
  from b have "cells = CELLS0"
    by (simp add: buildGrid_CELLS0)
  with u have "\<Union> (cell_box ` set CELLS0) = {LAT_MIN cfg0 .. T} \<times> {LON_MIN cfg0 .. R}"
    by simp
  with t have "\<exists>T R. LAT_MAX cfg0 - EPS \<le> T \<and> T \<le> LAT_MAX cfg0
          \<and> LON_MAX cfg0 - EPS \<le> R \<and> R \<le> LON_MAX cfg0
          \<and> \<Union> (cell_box ` set CELLS0) = {LAT_MIN cfg0 .. T} \<times> {LON_MIN cfg0 .. R}"
    by blast
  with h buildGrid_CELLS0 show ?thesis
    by (intro conjI)
qed

lemma cfgS_sel:
  "LAT_MIN cfgS = -1" "LAT_MAX cfgS = 1" "LON_MIN cfgS = 0" "LON_MAX cfgS = 2 + 5 / 10 ^ 13"
  "GRID_KM cfgS = 111.32"
  by (simp_all add: cfgS_def)

lemma DLON_cfgS: "DLON cfgS = 1"
  by (simp add: DLON_def KM_PER_DEG_LON_def MID_LAT_def cfgS_def)

lemma DLAT_cfgS: "DLAT cfgS = 55660 / 55287"
  by (simp add: DLAT_def KM_PER_DEG_LAT_def cfgS_def)

lemma buildGrid_cfgS: "buildGrid cfgS = Some (CELLS0, 2)"
  unfolding CELLS0
  by (simp add: buildGrid_def row_loop.simps col_loop.simps EPS_def DLON_cfgS DLAT_cfgS cfgS_sel
      new_cell_def Let_def show_nat_0 show_nat_1)

text \<open>
  Claim C3 as stated fails when a bound lies less than the tolerance beyond the last cell:
  with the eastern bound at \<open>2 + 5e-13\<close> the loop stops at longitude 2, the grid is that
  of \<open>cfg0\<close>, and the point of the bounding box at latitude 0 on the eastern bound is in
  no cell.
\<close>

theorem grid_gap_below_tolerance_counterexample:
  "LAT_MIN cfgS < LAT_MAX cfgS \<and> LON_MIN cfgS < LON_MAX cfgS \<and> 0 < GRID_KM cfgS
   \<and> buildGrid cfgS = Some (CELLS0, 2)
   \<and> LAT_MIN cfgS \<le> 0 \<and> 0 \<le> LAT_MAX cfgS \<and> LON_MIN cfgS \<le> LON_MAX cfgS
   \<and> (0, LON_MAX cfgS) \<notin> \<Union> (cell_box ` set CELLS0)"
proof -
  have "(0, LON_MAX cfgS) \<notin> \<Union> (cell_box ` set CELLS0)"
    by (simp add: CELLS0 cell_box_def cfgS_sel)
  then show ?thesis
    by (simp add: buildGrid_cfgS cfgS_sel)
qed



end
